theory Spec2Isabelle
  imports Complex_Main "HOL-Library.Product_Lexorder" "HOL-Library.Code_Target_Numeral"
begin

section \<open>Text helpers shared by both converters\<close>

text \<open>
  The repository holds two scripts that turn the text of a Schwab 1099-B statement into a TXF
  file: \<^verbatim>\<open>convert-1099B-2022.py\<close> (driven by ``Box X checked'' marker lines and regular
  expressions) and \<^verbatim>\<open>taxform_parser.py\<close> (a whitespace tokenizer).  Text is modelled as
  \<^typ>\<open>string\<close>, one \<^typ>\<open>char\<close> per code point below 256.
\<close>

definition nl :: char where
  "nl = CHR 0x0A"

text \<open>The code points below 256 for which Python's \<^verbatim>\<open>str.isspace\<close> holds; the same
  set is what \<^verbatim>\<open>\s\<close> matches and what \<^verbatim>\<open>str.strip()\<close> removes.\<close>

definition whitespace :: "char list" where
  "whitespace = [CHR 0x09, CHR 0x0A, CHR 0x0B, CHR 0x0C, CHR 0x0D, CHR 0x1C, CHR 0x1D,
                 CHR 0x1E, CHR 0x1F, CHR 0x20, CHR 0x85, CHR 0xA0]"

definition digits :: "char list" where
  "digits = ''0123456789''"

definition is_space :: "char \<Rightarrow> bool" where
  "is_space c = (c \<in> set whitespace)"

definition is_digit :: "char \<Rightarrow> bool" where
  "is_digit c = (c \<in> set digits)"

text \<open>\<^verbatim>\<open>s.strip()\<close>\<close>

definition strip :: "string \<Rightarrow> string" where
  "strip s = rev (dropWhile is_space (rev (dropWhile is_space s)))"

text \<open>\<^verbatim>\<open>s.replace(c, '')\<close> for a one-character \<^verbatim>\<open>c\<close>\<close>

definition remove_char :: "char \<Rightarrow> string \<Rightarrow> string" where
  "remove_char c s = filter (\<lambda>x. x \<noteq> c) s"

text \<open>\<^verbatim>\<open>s.split(' ')\<close>: every single blank separates, so two blanks in a row give
  an empty token, and the result is never the empty list.\<close>

fun split_blank :: "string \<Rightarrow> string list" where
  "split_blank [] = [[]]"
| "split_blank (c # cs) =
     (if c = CHR '' '' then [] # split_blank cs
      else (case split_blank cs of
              [] \<Rightarrow> [[c]]
            | w # ws \<Rightarrow> (c # w) # ws))"

definition startswith :: "string \<Rightarrow> string \<Rightarrow> bool" where
  "startswith s p = (take (length p) s = p)"

definition endswith :: "string \<Rightarrow> string \<Rightarrow> bool" where
  "endswith s p = (length p \<le> length s \<and> drop (length s - length p) s = p)"

text \<open>ASCII case mapping, enough for the letters the two scripts look at.\<close>

definition lower_char :: "char \<Rightarrow> char" where
  "lower_char c =
     (let n = of_char c :: nat in if 65 \<le> n \<and> n \<le> 90 then char_of (n + 32) else c)"

definition upper_char :: "char \<Rightarrow> char" where
  "upper_char c =
     (let n = of_char c :: nat in if 97 \<le> n \<and> n \<le> 122 then char_of (n - 32) else c)"

text \<open>\<^verbatim>\<open>int(s)\<close> for a string of decimal digits (the empty string counts as 0 where
  the callers concatenate an empty integer part with a fraction).\<close>

definition digit_val :: "char \<Rightarrow> nat" where
  "digit_val c = of_char c - 48"

definition nat_of_digits :: "string \<Rightarrow> nat" where
  "nat_of_digits s = foldl (\<lambda>a c. 10 * a + digit_val c) 0 s"

text \<open>\<^verbatim>\<open>str(n)\<close> for a non-negative integer.\<close>

fun str_nat :: "nat \<Rightarrow> string" where
  "str_nat n = (if n < 10 then [char_of (48 + n)] else str_nat (n div 10) @ [char_of (48 + n mod 10)])"

declare str_nat.simps [simp del]

section \<open>Errors\<close>

text \<open>Every way either script stops early.  \<open>SysExit\<close> is \<^verbatim>\<open>sys.exit(message)\<close>; the
  others are the uncaught Python exceptions of the same name.\<close>

datatype error =
    Usage
  | NoCheckbox
  | InsufficientContent
  | UnexpectedPair string string
  | LineError nat string
  | ParseException nat string
  | ValueError
  | TypeError
  | KeyError
  | IndexError
  | InvalidOperation
  | Overflow
  | NoRecords
  | UnexpectedFormat

section \<open>\<^verbatim>\<open>decimal.Decimal\<close> under the default context\<close>

text \<open>
  Neither script changes the arithmetic context, so every \<^verbatim>\<open>+\<close> on Decimals runs with
  precision 28, rounding half-even, exponent limits \<open>\<plusminus>999999\<close>, and the traps
  InvalidOperation, DivisionByZero and Overflow.  A finite Decimal is sign, coefficient and
  exponent; the payload and sign of a NaN are not represented (\<open>NaN True\<close> is a
  signalling NaN).
\<close>

datatype decimal =
    Finite bool nat int
  | Infinity bool
  | NaN bool

definition prec :: nat where "prec = 28"
definition Emax :: int where "Emax = 999999"
definition Emin :: int where "Emin = - 999999"
definition Etiny :: int where "Etiny = Emin - int prec + 1"
definition Etop :: int where "Etop = Emax - int prec + 1"

text \<open>Number of decimal digits of a coefficient (\<^verbatim>\<open>len(str(c))\<close>).\<close>

fun ndigits :: "nat \<Rightarrow> nat" where
  "ndigits n = (if n < 10 then 1 else Suc (ndigits (n div 10)))"

declare ndigits.simps [simp del]

text \<open>Drop the \<open>k\<close> low digits of \<open>c\<close>, rounding half-even.\<close>

definition round_half_even :: "nat \<Rightarrow> nat \<Rightarrow> nat" where
  "round_half_even c k =
     (let q = c div 10 ^ k; r = c mod 10 ^ k; h = 5 * 10 ^ (k - 1)
      in if h < r \<or> (r = h \<and> odd q) then q + 1 else q)"

text \<open>The context's final rounding step (\<^verbatim>\<open>Decimal._fix\<close>) for a finite value: a zero
  only has its exponent clamped; a coefficient of more than \<open>prec\<close> digits, or an exponent
  below \<open>Etiny\<close>, is rounded; a result beyond \<open>Emax\<close> raises Overflow.\<close>

definition dec_fix :: "bool \<Rightarrow> nat \<Rightarrow> int \<Rightarrow> error + decimal" where
  "dec_fix s c e =
     (if c = 0 then Inr (Finite s 0 (min (max e Etiny) Emax))
      else
        let exp_min0 = int (ndigits c) + e - int prec in
        if Etop < exp_min0 then Inl Overflow
        else
          let exp_min = max exp_min0 Etiny in
          if e < exp_min then
            let coeff = round_half_even c (nat (exp_min - e));
                over = (prec < ndigits coeff);
                coeff' = (if over then coeff div 10 else coeff);
                exp' = (if over then exp_min + 1 else exp_min)
            in if Etop < exp' then Inl Overflow else Inr (Finite s coeff' exp')
          else Inr (Finite s c e))"

text \<open>The signed coefficient of a finite value at a lower exponent \<open>e\<close>.\<close>

definition scaled :: "bool \<Rightarrow> nat \<Rightarrow> int \<Rightarrow> int \<Rightarrow> int" where
  "scaled s c e0 e = (if s then - 1 else 1) * int c * 10 ^ nat (e0 - e)"

text \<open>\<^verbatim>\<open>a + b\<close>: a signalling NaN raises, a quiet NaN propagates, opposite infinities
  raise; two finite values are added exactly at the smaller exponent and the sum goes through
  \<open>dec_fix\<close>.  A zero sum of two zeros is negative only when both are; any other zero sum is
  positive.\<close>

fun dec_add :: "decimal \<Rightarrow> decimal \<Rightarrow> error + decimal" where
  "dec_add (NaN sa) (NaN sb) = (if sa \<or> sb then Inl InvalidOperation else Inr (NaN False))"
| "dec_add (NaN sa) _ = (if sa then Inl InvalidOperation else Inr (NaN False))"
| "dec_add _ (NaN sb) = (if sb then Inl InvalidOperation else Inr (NaN False))"
| "dec_add (Infinity sa) (Infinity sb) =
     (if sa \<noteq> sb then Inl InvalidOperation else Inr (Infinity sa))"
| "dec_add (Infinity sa) _ = Inr (Infinity sa)"
| "dec_add _ (Infinity sb) = Inr (Infinity sb)"
| "dec_add (Finite s1 c1 e1) (Finite s2 c2 e2) =
     (let e = min e1 e2;
          v = scaled s1 c1 e1 e + scaled s2 c2 e2 e
      in if c1 = 0 \<and> c2 = 0 then dec_fix (s1 \<and> s2) 0 e
         else dec_fix (v < 0) (nat \<bar>v\<bar>) e)"

text \<open>\<^verbatim>\<open>bool(d)\<close>: only a finite zero is false.\<close>

fun dec_bool :: "decimal \<Rightarrow> bool" where
  "dec_bool (Finite s c e) = (c \<noteq> 0)"
| "dec_bool _ = True"

text \<open>\<^verbatim>\<open>float(d)\<close> raises ValueError exactly on a signalling NaN.\<close>

fun float_raises :: "decimal \<Rightarrow> bool" where
  "float_raises (NaN sa) = sa"
| "float_raises _ = False"

text \<open>The rational number a finite Decimal denotes.\<close>

fun dec_val :: "decimal \<Rightarrow> rat" where
  "dec_val (Finite s c e) =
     (if s then - 1 else 1) * of_nat c * 10 powi e"
| "dec_val _ = 0"

fun is_finite :: "decimal \<Rightarrow> bool" where
  "is_finite (Finite s c e) = True"
| "is_finite _ = False"

subsection \<open>The constructor \<^verbatim>\<open>Decimal(str)\<close>\<close>

text \<open>
  Surrounding whitespace is stripped and underscores are removed; then the text is an optional
  sign followed by a number (digits with an optional fraction and an optional exponent, at
  least one digit in all), \<^verbatim>\<open>Inf\<close>/\<^verbatim>\<open>Infinity\<close>, or \<^verbatim>\<open>NaN\<close>/\<^verbatim>\<open>sNaN\<close> with
  optional payload digits, letters in either case.  The conversion is exact.  \<open>None\<close> is the
  InvalidOperation the constructor raises on anything else.
\<close>

definition parse_exponent :: "string \<Rightarrow> int option" where
  "parse_exponent r =
     (case r of
        [] \<Rightarrow> Some 0
      | x # t \<Rightarrow>
          if lower_char x \<noteq> CHR ''e'' then None
          else
            let (neg, ds) = (case t of
                               [] \<Rightarrow> (False, t)
                             | y # u \<Rightarrow> if y = CHR ''-'' then (True, u)
                                        else if y = CHR ''+'' then (False, u) else (False, t))
            in if ds = [] \<or> \<not> list_all is_digit ds then None
               else Some ((if neg then - 1 else 1) * int (nat_of_digits ds)))"

definition parse_number :: "string \<Rightarrow> (nat \<times> int) option" where
  "parse_number s =
     (let ip = takeWhile is_digit s;
          r1 = dropWhile is_digit s;
          (fr, r2) = (case r1 of
                        [] \<Rightarrow> ([], r1)
                      | x # t \<Rightarrow> if x = CHR ''.'' then (takeWhile is_digit t, dropWhile is_digit t)
                                 else ([], r1))
      in if ip = [] \<and> fr = [] then None
         else (case parse_exponent r2 of
                 None \<Rightarrow> None
               | Some ex \<Rightarrow> Some (nat_of_digits (ip @ fr), ex - int (length fr))))"

definition parse_special :: "bool \<Rightarrow> string \<Rightarrow> decimal option" where
  "parse_special sg s =
     (let l = map lower_char s in
      if l = ''inf'' \<or> l = ''infinity'' then Some (Infinity sg)
      else if take 3 l = ''nan'' \<and> list_all is_digit (drop 3 l) then Some (NaN False)
      else if take 4 l = ''snan'' \<and> list_all is_digit (drop 4 l) then Some (NaN True)
      else None)"

definition Decimal :: "string \<Rightarrow> decimal option" where
  "Decimal str =
     (let s = remove_char CHR ''_'' (strip str);
          (sg, body) = (case s of
                          [] \<Rightarrow> (False, s)
                        | x # t \<Rightarrow> if x = CHR ''-'' then (True, t)
                                   else if x = CHR ''+'' then (False, t) else (False, s))
      in case parse_number body of
           Some (c, e) \<Rightarrow> Some (Finite sg c e)
         | None \<Rightarrow> parse_special sg body)"

text \<open>The accumulators start at \<^verbatim>\<open>Decimal('0.00')\<close>; \<^verbatim>\<open>Decimal(0)\<close> is the zero with
  exponent 0.\<close>

definition zero2 :: decimal where
  "zero2 = Finite False 0 (- 2)"

definition zero0 :: decimal where
  "zero0 = Finite False 0 0"

section \<open>A backtracking matcher for the regular expressions of the two scripts\<close>

text \<open>
  The patterns in \<^verbatim>\<open>convert-1099B-2022.py\<close> (and the one \<^verbatim>\<open>datetime.strptime\<close> builds
  from \<^verbatim>\<open>%m/%d/%Y\<close>) use literals, character classes, greedy \<^verbatim>\<open>+\<close> on a class, greedy
  \<^verbatim>\<open>?\<close>, alternation, capturing groups and \<^verbatim>\<open>$\<close>.  \<open>rx_run\<close> lists every way a
  pattern can match a prefix of the text, in the order Python's backtracking engine tries
  them; the engine's answer is the first one.
\<close>

datatype rx =
    Eps
  | Lit char
  | Cls "char list"
  | PlusCls "char list"
  | Seq rx rx
  | Alt rx rx
  | Opt rx
  | Grp nat rx
  | Eos

type_synonym captures = "(nat \<times> string) list"

fun rx_run :: "rx \<Rightarrow> captures \<times> string \<Rightarrow> (captures \<times> string) list" where
  "rx_run Eps st = [st]"
| "rx_run (Lit c) (g, s) = (case s of [] \<Rightarrow> [] | x # t \<Rightarrow> if x = c then [(g, t)] else [])"
| "rx_run (Cls cs) (g, s) = (case s of [] \<Rightarrow> [] | x # t \<Rightarrow> if x \<in> set cs then [(g, t)] else [])"
| "rx_run (PlusCls cs) (g, s) =
     map (\<lambda>k. (g, drop k s)) (rev [1 ..< Suc (length (takeWhile (\<lambda>x. x \<in> set cs) s))])"
| "rx_run (Seq a b) st = concat (map (rx_run b) (rx_run a st))"
| "rx_run (Alt a b) st = rx_run a st @ rx_run b st"
| "rx_run (Opt a) st = rx_run a st @ [st]"
| "rx_run (Grp n a) (g, s) =
     map (\<lambda>(g', s'). ((n, take (length s - length s') s) # g', s')) (rx_run a (g, s))"
| "rx_run Eos (g, s) = (if s = [] \<or> s = [nl] then [(g, s)] else [])"

text \<open>\<^verbatim>\<open>re.match\<close>: the first match anchored at the start, with the unread rest of the
  text; \<^verbatim>\<open>re.search\<close>: the first start position that has one; \<^verbatim>\<open>m.group(n)\<close>.\<close>

definition re_match :: "rx \<Rightarrow> string \<Rightarrow> (captures \<times> string) option" where
  "re_match r s = (case rx_run r ([], s) of [] \<Rightarrow> None | m # _ \<Rightarrow> Some m)"

fun re_search :: "rx \<Rightarrow> string \<Rightarrow> (captures \<times> string) option" where
  "re_search r [] = re_match r []"
| "re_search r (c # cs) =
     (case re_match r (c # cs) of Some m \<Rightarrow> Some m | None \<Rightarrow> re_search r cs)"

definition group :: "captures \<times> string \<Rightarrow> nat \<Rightarrow> string option" where
  "group m n = map_of (fst m) n"

definition lit :: "string \<Rightarrow> rx" where
  "lit s = foldr (\<lambda>c r. Seq (Lit c) r) s Eps"

definition seqs :: "rx list \<Rightarrow> rx" where
  "seqs rs = foldr Seq rs Eps"

section \<open>Dates: \<^verbatim>\<open>datetime.strptime(s, '%m/%d/%Y')\<close>\<close>

text \<open>A date is (year, month, day); the lexicographic order on the triple is the order
  of \<^verbatim>\<open>datetime\<close> values at midnight.\<close>

type_synonym date = "nat \<times> nat \<times> nat"

text \<open>The pattern \<^verbatim>\<open>_strptime\<close> compiles for \<^verbatim>\<open>%m/%d/%Y\<close>:
  \<^verbatim>\<open>(?P<m>1[0-2]|0[1-9]|[1-9])/(?P<d>3[0-1]|[1-2]\d|0[1-9]|[1-9]| [1-9])/(?P<Y>\d\d\d\d)\<close>.\<close>

definition strptime_rx :: rx where
  "strptime_rx =
     seqs [Grp 1 (Alt (Seq (Lit CHR ''1'') (Cls ''012''))
                 (Alt (Seq (Lit CHR ''0'') (Cls ''123456789'')) (Cls ''123456789''))),
           Lit CHR ''/'',
           Grp 2 (Alt (Seq (Lit CHR ''3'') (Cls ''01''))
                 (Alt (Seq (Cls ''12'') (Cls digits))
                 (Alt (Seq (Lit CHR ''0'') (Cls ''123456789''))
                 (Alt (Cls ''123456789'') (Seq (Lit CHR '' '') (Cls ''123456789'')))))),
           Lit CHR ''/'',
           Grp 3 (seqs [Cls digits, Cls digits, Cls digits, Cls digits])]"

definition is_leap :: "nat \<Rightarrow> bool" where
  "is_leap y = (y mod 4 = 0 \<and> (y mod 100 \<noteq> 0 \<or> y mod 400 = 0))"

definition days_in_month :: "nat \<Rightarrow> nat \<Rightarrow> nat" where
  "days_in_month y m =
     (if m = 2 then (if is_leap y then 29 else 28)
      else if m \<in> {4, 6, 9, 11} then 30 else 31)"

text \<open>The text must match the pattern and be used up; the numbers must form a date
  (year at least 1, day within the month).  \<open>None\<close> is ValueError.\<close>

definition strptime :: "string \<Rightarrow> date option" where
  "strptime s =
     (case re_match strptime_rx s of
        None \<Rightarrow> None
      | Some m \<Rightarrow>
          if snd m \<noteq> [] then None
          else (case (group m 3, group m 1, group m 2) of
                  (Some ys, Some ms, Some ds) \<Rightarrow>
                    let y = nat_of_digits ys; mo = nat_of_digits ms;
                        d = nat_of_digits (strip ds)
                    in if 1 \<le> y \<and> 1 \<le> d \<and> d \<le> days_in_month y mo then Some (y, mo, d)
                       else None
                | _ \<Rightarrow> None))"

section \<open>The checkbox-driven converter (\<^verbatim>\<open>convert-1099B-2022.py\<close>)\<close>

definition CUSIPS :: "(string \<times> string) list" where
  "CUSIPS = [(''GOOGL'', ''02079K305''), (''GOOG'', ''02079K107'')]"

definition TXF_CATEGORIES :: "(string \<times> nat) list" where
  "TXF_CATEGORIES = [(''B'', 711), (''E'', 713)]"

subsection \<open>\<^verbatim>\<open>TxfRecord\<close>\<close>

datatype fval = S string | I nat

type_synonym TxfRecord = "(string \<times> fval) list"

definition addField :: "TxfRecord \<Rightarrow> string \<Rightarrow> fval \<Rightarrow> TxfRecord" where
  "addField r op v = r @ [(op, v)]"

fun str_fval :: "fval \<Rightarrow> string" where
  "str_fval (S s) = s"
| "str_fval (I n) = str_nat n"

fun join :: "string \<Rightarrow> string list \<Rightarrow> string" where
  "join sep [] = []"
| "join sep [x] = x"
| "join sep (x # y # ys) = x @ sep @ join sep (y # ys)"

definition TxfRecord_str :: "TxfRecord \<Rightarrow> string" where
  "TxfRecord_str r = join [nl] (map (\<lambda>(op, v). op @ str_fval v) r @ [''^''])"

subsection \<open>\<^verbatim>\<open>Totals\<close>\<close>

record Totals =
  proceeds :: decimal
  basis :: decimal
  wash :: decimal

definition Totals_default :: Totals where
  "Totals_default = \<lparr>proceeds = zero2, basis = zero2, wash = zero2\<rparr>"

text \<open>\<^verbatim>\<open>totals\<close> is a \<^verbatim>\<open>defaultdict(Totals)\<close>: reading a missing key gives the default.\<close>

definition lookup_totals :: "(string \<Rightarrow> Totals option) \<Rightarrow> string \<Rightarrow> Totals" where
  "lookup_totals t k = (case t k of None \<Rightarrow> Totals_default | Some v \<Rightarrow> v)"

subsection \<open>The patterns\<close>

text \<open>\<^verbatim>\<open>[\d,]+(?:\.\d+)\<close> and \<^verbatim>\<open>\d{2}/\d{2}/\d{4}\<close> and \<^verbatim>\<open>\d+(?:\.\d+)? SHARES? OF\<close>\<close>

definition amount_rx :: rx where
  "amount_rx = seqs [PlusCls (digits @ '',''), Lit CHR ''.'', PlusCls digits]"

definition date_rx :: rx where
  "date_rx = seqs [Cls digits, Cls digits, Lit CHR ''/'', Cls digits, Cls digits, Lit CHR ''/'',
                   Cls digits, Cls digits, Cls digits, Cls digits]"

definition shares_of_rx :: rx where
  "shares_of_rx = seqs [PlusCls digits, Opt (Seq (Lit CHR ''.'') (PlusCls digits)),
                        lit '' SHARE'', Opt (Lit CHR ''S''), lit '' OF '']"

text \<open>\<^verbatim>\<open>Box ([BE]) checked\<close>, the class being the keys of \<open>TXF_CATEGORIES\<close>\<close>

definition box_rx :: rx where
  "box_rx = seqs [lit ''Box '', Grp 1 (Cls (concat (map fst TXF_CATEGORIES))), lit '' checked'']"

text \<open>\<^verbatim>\<open>\d+(?:\.\d+)? SHARES? OF (GOOGL?) (\d{2}/\d{2}/\d{4})\s+([\d,]+(?:\.\d+))\s+([\d,]+(?:\.\d+))(?:\s+([\d,]+(?:\.\d+)))?\s+X$\<close>\<close>

definition combined_rx :: rx where
  "combined_rx =
     seqs [shares_of_rx, Grp 1 (Seq (lit ''GOOG'') (Opt (Lit CHR ''L''))), Lit CHR '' '',
           Grp 2 date_rx, PlusCls whitespace, Grp 3 amount_rx, PlusCls whitespace, Grp 4 amount_rx,
           Opt (Seq (PlusCls whitespace) (Grp 5 amount_rx)), PlusCls whitespace, Lit CHR ''X'', Eos]"

text \<open>\<^verbatim>\<open>\d+(?:\.\d+)? SHARES? OF (GOOGL?)$\<close>\<close>

definition line2_rx :: rx where
  "line2_rx = seqs [shares_of_rx, Grp 1 (Seq (lit ''GOOG'') (Opt (Lit CHR ''L''))), Eos]"

text \<open>\<^verbatim>\<open>(\d{2}/\d{2}/\d{4})\s+([\d,]+(?:\.\d+))\s+([\d,]+(?:\.\d+))(?:\s+([\d,]+(?:\.\d+)))?\s+X$\<close>\<close>

definition line3_rx :: rx where
  "line3_rx =
     seqs [Grp 1 date_rx, PlusCls whitespace, Grp 2 amount_rx, PlusCls whitespace, Grp 3 amount_rx,
           Opt (Seq (PlusCls whitespace) (Grp 4 amount_rx)), PlusCls whitespace, Lit CHR ''X'', Eos]"

text \<open>\<^verbatim>\<open>(\d{2}/\d{2}/\d{4})\sGROSS$\<close>\<close>

definition line4_rx :: rx where
  "line4_rx = seqs [Grp 1 date_rx, Cls whitespace, lit ''GROSS'', Eos]"

subsection \<open>Reading one record (source lines 102 to 172)\<close>

text \<open>The local variables a record leaves behind.  \<open>l_wash\<close> is \<open>None\<close> when the optional
  group took no part in the match.\<close>

record item =
  l_cusip :: string
  l_symbol :: string
  box1a_description :: string
  l_acq_date :: string
  l_proceeds :: string
  l_basis :: string
  l_wash :: "string option"
  l_sale_date :: string

definition get_line :: "string list \<Rightarrow> nat \<Rightarrow> error + string" where
  "get_line lines i = (if i < length lines then Inr (lines ! i) else Inl IndexError)"

text \<open>The symbol must be a key of \<open>CUSIPS\<close> (else KeyError) and map to the CUSIP line.\<close>

definition check_pair :: "string \<Rightarrow> string \<Rightarrow> error option" where
  "check_pair symbol cusip =
     (case map_of CUSIPS symbol of
        None \<Rightarrow> Some KeyError
      | Some c \<Rightarrow> if c \<noteq> cusip then Some (UnexpectedPair symbol cusip) else None)"

text \<open>Line 4 of the record (line 3 when two lines were joined), at index \<open>i\<close>.\<close>

definition read_sale_line :: "string list \<Rightarrow> nat \<Rightarrow> error + string" where
  "read_sale_line lines i =
     (case get_line lines i of
        Inl e \<Rightarrow> Inl e
      | Inr line \<Rightarrow>
          (case re_match line4_rx line of
             None \<Rightarrow> Inl (LineError (i + 1) line)
           | Some m \<Rightarrow> (case group m 1 of None \<Rightarrow> Inl TypeError | Some d \<Rightarrow> Inr d)))"

text \<open>\<open>read_item lines i\<close> starts at the CUSIP line \<open>lines ! i\<close> and returns the record's
  variables with the index of the line after the record.  A group that a successful match
  must have set is read with a \<open>TypeError\<close> branch for \<open>None\<close>, which is never taken.\<close>

definition read_item :: "string list \<Rightarrow> nat \<Rightarrow> error + (item \<times> nat)" where
  "read_item lines i =
     (if length lines < i + 3 then Inl InsufficientContent
      else
        let cusip = map upper_char (lines ! i);
            line = lines ! (i + 1)
        in case re_match combined_rx line of
             Some m \<Rightarrow>
               (case (group m 1, group m 2, group m 3, group m 4) of
                  (Some symbol, Some acq, Some pr, Some bs) \<Rightarrow>
                    (case check_pair symbol cusip of
                       Some e \<Rightarrow> Inl e
                     | None \<Rightarrow>
                         (case read_sale_line lines (i + 2) of
                            Inl e \<Rightarrow> Inl e
                          | Inr sale \<Rightarrow>
                              Inr (\<lparr>l_cusip = cusip, l_symbol = symbol, box1a_description = line,
                                    l_acq_date = acq, l_proceeds = pr, l_basis = bs,
                                    l_wash = group m 5, l_sale_date = sale\<rparr>, i + 3)))
                | _ \<Rightarrow> Inl TypeError)
           | None \<Rightarrow>
               (case re_match line2_rx line of
                  None \<Rightarrow> Inl (LineError (i + 2) line)
                | Some m2 \<Rightarrow>
                    (case group m2 1 of
                       None \<Rightarrow> Inl TypeError
                     | Some symbol \<Rightarrow>
                         (case check_pair symbol cusip of
                            Some e \<Rightarrow> Inl e
                          | None \<Rightarrow>
                              let line3 = lines ! (i + 2) in
                              (case re_match line3_rx line3 of
                                 None \<Rightarrow> Inl (LineError (i + 3) line3)
                               | Some m3 \<Rightarrow>
                                   (case (group m3 1, group m3 2, group m3 3) of
                                      (Some acq, Some pr, Some bs) \<Rightarrow>
                                        (case read_sale_line lines (i + 3) of
                                           Inl e \<Rightarrow> Inl e
                                         | Inr sale \<Rightarrow>
                                             Inr (\<lparr>l_cusip = cusip, l_symbol = symbol,
                                                   box1a_description = line, l_acq_date = acq,
                                                   l_proceeds = pr, l_basis = bs,
                                                   l_wash = group m3 4, l_sale_date = sale\<rparr>,
                                                  i + 4))
                                    | _ \<Rightarrow> Inl TypeError))))))"

subsection \<open>Totals and the TXF block of one record (source lines 174 to 199)\<close>

text \<open>\<^verbatim>\<open>acc += decimal.Decimal(text.replace(',', ''))\<close>\<close>

definition add_amount :: "decimal \<Rightarrow> string \<Rightarrow> error + decimal" where
  "add_amount acc text =
     (case Decimal (remove_char CHR '','' text) of
        None \<Rightarrow> Inl InvalidOperation
      | Some d \<Rightarrow> dec_add acc d)"

definition add_totals :: "Totals \<Rightarrow> item \<Rightarrow> error + Totals" where
  "add_totals t it =
     (case add_amount (proceeds t) (l_proceeds it) of
        Inl e \<Rightarrow> Inl e
      | Inr p \<Rightarrow>
          (case add_amount (basis t) (l_basis it) of
             Inl e \<Rightarrow> Inl e
           | Inr b \<Rightarrow>
               (case l_wash it of
                  None \<Rightarrow> Inr (t\<lparr>proceeds := p, basis := b\<rparr>)
                | Some w \<Rightarrow>
                    (case add_amount (wash t) w of
                       Inl e \<Rightarrow> Inl e
                     | Inr w' \<Rightarrow> Inr (t\<lparr>proceeds := p, basis := b, wash := w'\<rparr>)))))"

definition txf_item :: "nat \<Rightarrow> item \<Rightarrow> TxfRecord" where
  "txf_item refnum it =
     (let r0 = addField [] ''T'' (S ''D'');
          r1 = addField r0 ''N'' (I refnum);
          r2 = addField r1 ''P'' (S (box1a_description it));
          r3 = addField r2 ''D'' (S (l_acq_date it));
          r4 = addField r3 ''D'' (S (l_sale_date it));
          r5 = addField r4 ''$'' (S (l_basis it));
          r6 = addField r5 ''$'' (S (l_proceeds it))
      in case l_wash it of None \<Rightarrow> r6 | Some w \<Rightarrow> addField r6 ''$'' (S w))"

subsection \<open>The main loop\<close>

text \<open>\<open>output_file\<close> is what has been printed to the output file so far, one \<open>TxfRecord\<close> per
  \<^verbatim>\<open>print\<close>.  \<open>history\<close> is not a variable of the script: it records each accepted record
  with the category in force, and nothing reads it.\<close>

record conv_state =
  input_line :: nat
  txf_category :: "string option"
  totals :: "string \<Rightarrow> Totals option"
  output_file :: "TxfRecord list"
  history :: "(string \<times> item) list"

definition emit_item :: "conv_state \<Rightarrow> string \<Rightarrow> item \<Rightarrow> nat \<Rightarrow> error + conv_state" where
  "emit_item st cat it i' =
     (case add_totals (lookup_totals (totals st) cat) it of
        Inl e \<Rightarrow> Inl e
      | Inr t \<Rightarrow>
          (case map_of TXF_CATEGORIES cat of
             None \<Rightarrow> Inl KeyError
           | Some refnum \<Rightarrow>
               Inr (st\<lparr>input_line := i',
                       totals := (totals st)(cat \<mapsto> t),
                       output_file := output_file st @ [txf_item refnum it],
                       history := history st @ [(cat, it)]\<rparr>)))"

text \<open>One pass of the \<^verbatim>\<open>while\<close> body: \<open>Inl\<close> aborts the run, \<open>Inr\<close> is the state for the
  next pass.\<close>

definition convert_step :: "string list \<Rightarrow> conv_state \<Rightarrow> error + conv_state" where
  "convert_step lines st =
     (let line = lines ! input_line st in
      case re_search box_rx line of
        Some m \<Rightarrow> Inr (st\<lparr>txf_category := group m 1, input_line := input_line st + 1\<rparr>)
      | None \<Rightarrow>
          if line \<notin> set (map snd CUSIPS) then Inr (st\<lparr>input_line := input_line st + 1\<rparr>)
          else (case txf_category st of
                  None \<Rightarrow> Inl NoCheckbox
                | Some cat \<Rightarrow>
                    (case read_item lines (input_line st) of
                       Inl e \<Rightarrow> Inl e
                     | Inr (it, i') \<Rightarrow> emit_item st cat it i')))"

lemma read_item_advances: "read_item lines i = Inr (it, j) \<Longrightarrow> i < j"
  by (auto simp: read_item_def Let_def split: if_splits option.splits sum.splits)

lemma emit_item_line: "emit_item st cat it j = Inr st' \<Longrightarrow> input_line st' = j"
  by (auto simp: emit_item_def split: sum.splits option.splits)

lemma convert_step_advances:
  "convert_step lines st = Inr st' \<Longrightarrow> input_line st < input_line st'"
  by (auto simp: convert_step_def Let_def split: option.splits if_splits sum.splits
           dest: read_item_advances emit_item_line)

text \<open>\<^verbatim>\<open>while input_line < len(lines)\<close>; the result is the error that stopped the run (if
  any) with the state reached.\<close>

function convert_loop :: "string list \<Rightarrow> conv_state \<Rightarrow> error option \<times> conv_state" where
  "convert_loop lines st =
     (if input_line st < length lines then
        (case convert_step lines st of
           Inl e \<Rightarrow> (Some e, st)
         | Inr st' \<Rightarrow> convert_loop lines st')
      else (None, st))"
  by pat_completeness auto
termination
  by (relation "measure (\<lambda>(lines, st). length lines - input_line st)")
     (auto dest: convert_step_advances)

declare convert_loop.simps [simp del]

subsection \<open>The script as a whole\<close>

definition header :: "string \<Rightarrow> TxfRecord" where
  "header today_text =
     addField (addField (addField [] ''V'' (S ''042'')) ''A'' (S ''Self'')) ''D'' (S today_text)"

text \<open>Each \<^verbatim>\<open>print(record, file=output)\<close> writes the record's text and a newline.\<close>

definition file_text :: "TxfRecord list \<Rightarrow> string" where
  "file_text rs = concat (map (\<lambda>r. TxfRecord_str r @ [nl]) rs)"

definition initial_state :: "string \<Rightarrow> conv_state" where
  "initial_state today_text =
     \<lparr>input_line = 0, txf_category = None, totals = (\<lambda>k. None),
      output_file = [header today_text], history = []\<rparr>"

text \<open>
  \<open>convert argv today_text lines\<close>: \<open>argv\<close> is \<^verbatim>\<open>sys.argv\<close>, \<open>today_text\<close> the rendering of
  today's date, \<open>lines\<close> what \<^verbatim>\<open>pdftotext\<close> printed, split into lines.  The result is the
  error that ended the run (\<open>None\<close>: it ran to its end), the content of the output file
  (\<open>None\<close>: the file was never opened) and the state reached.  The file is opened, and the
  header written, before the first line is looked at, and everything printed is in the file
  when the \<^verbatim>\<open>with\<close> block is left, also by \<^verbatim>\<open>sys.exit\<close> or an exception.  The summary
  printed to standard output after the loop is not modelled.
\<close>

definition convert ::
  "string list \<Rightarrow> string \<Rightarrow> string list \<Rightarrow> error option \<times> string option \<times> conv_state" where
  "convert argv today_text lines =
     (if length argv \<noteq> 3 then (Some Usage, None, initial_state today_text)
      else
        let (err, st) = convert_loop lines (initial_state today_text)
        in (err, Some (file_text (output_file st)), st))"

section \<open>The tokenizing converter (\<^verbatim>\<open>taxform_parser.py\<close>)\<close>

subsection \<open>Library functions taken as parameters\<close>

text \<open>
  Floating-point values (type \<open>'f\<close>) and the C library's date formatting are not modelled;
  the functions that produce or print them are parameters:
  \<open>float_of_str\<close> is \<^verbatim>\<open>float(s)\<close> (\<open>None\<close>: ValueError), \<open>float_le_zero x\<close> is \<^verbatim>\<open>x <= 0\<close>,
  \<open>str_float x\<close> is \<^verbatim>\<open>'%s' % x\<close>, \<open>fmt_2f d\<close> is \<^verbatim>\<open>'%.2f' % float(d)\<close>,
  \<open>strftime d\<close> is \<^verbatim>\<open>d.strftime('%m/%d/%Y')\<close> and \<open>today\<close> is that rendering of today's date.
\<close>

record 'f pylib =
  float_of_str :: "string \<Rightarrow> 'f option"
  float_le_zero :: "'f \<Rightarrow> bool"
  str_float :: "'f \<Rightarrow> string"
  fmt_2f :: "decimal \<Rightarrow> string"
  strftime :: "date \<Rightarrow> string"
  today :: string

subsection \<open>\<^verbatim>\<open>Record\<close>\<close>

text \<open>\<open>fmv\<close> is never assigned, so \<^verbatim>\<open>compute_total_basis\<close> always returns the reported
  basis.\<close>

record 'f Record =
  quantity :: 'f
  symbol :: string
  acquisition_date :: date
  sale_date :: date
  cusip :: string
  total_reported_basis :: decimal
  total_reported_wash :: "decimal option"
  total_reported_proceeds :: decimal

definition compute_total_basis :: "'f Record \<Rightarrow> decimal" where
  "compute_total_basis r = total_reported_basis r"

text \<open>\<^verbatim>\<open>"%.2f" % float(w) if w else ''\<close>: the test is the truth value of the Decimal, so
  a wash amount of zero also gives the empty text.\<close>

definition compute_total_wash :: "'f pylib \<Rightarrow> 'f Record \<Rightarrow> string" where
  "compute_total_wash lib r =
     (case total_reported_wash r of
        None \<Rightarrow> []
      | Some w \<Rightarrow> if dec_bool w then fmt_2f lib w else [])"

text \<open>One record's block of \<^verbatim>\<open>txf_records\<close>, line by line.\<close>

definition txf_record_lines :: "'f pylib \<Rightarrow> 'f Record \<Rightarrow> string list" where
  "txf_record_lines lib r =
     [''TD'', ''N715'', ''C1'', ''L1'',
      ''P'' @ str_float lib (quantity r) @ '' '' @ symbol r,
      ''D'' @ strftime lib (acquisition_date r),
      ''D'' @ strftime lib (sale_date r),
      ''$'' @ fmt_2f lib (compute_total_basis r),
      ''$'' @ fmt_2f lib (total_reported_proceeds r),
      ''$'' @ compute_total_wash lib r,
      ''^'']"

definition unlines :: "string list \<Rightarrow> string" where
  "unlines ls = concat (map (\<lambda>l. l @ [nl]) ls)"

definition txf_records :: "'f pylib \<Rightarrow> 'f Record list \<Rightarrow> string" where
  "txf_records lib records =
     unlines [''V042'', ''A quick and dirty TXF script'', ''D'' @ today lib, ''^'']
     @ concat (map (\<lambda>r. unlines (txf_record_lines lib r)) records)"

text \<open>\<^verbatim>\<open>Record.__str__\<close> only feeds the log; what matters to the run is that it calls
  \<^verbatim>\<open>float\<close> on the proceeds, the basis and a true wash amount, which raises ValueError on
  a signalling NaN.\<close>

definition Record_str_raises :: "'f Record \<Rightarrow> bool" where
  "Record_str_raises r =
     (float_raises (total_reported_proceeds r) \<or> float_raises (total_reported_basis r) \<or>
      (case total_reported_wash r of None \<Rightarrow> False | Some w \<Rightarrow> dec_bool w \<and> float_raises w))"

subsection \<open>\<^verbatim>\<open>Form1099Tokenizer\<close>\<close>

record Form1099Tokenizer =
  lines :: "string list"
  line_idx :: nat
  tokens :: "string list"

text \<open>The constructor strips every line of the text \<^verbatim>\<open>pdftotext\<close> printed.\<close>

definition Form1099Tokenizer_init :: "string list \<Rightarrow> Form1099Tokenizer" where
  "Form1099Tokenizer_init raw_lines = \<lparr>lines = map strip raw_lines, line_idx = 0, tokens = []\<rparr>"

function find_cusip :: "Form1099Tokenizer \<Rightarrow> string option \<times> Form1099Tokenizer" where
  "find_cusip tk =
     (if line_idx tk < length (lines tk) then
        let c = lines tk ! line_idx tk;
            tk' = tk\<lparr>line_idx := line_idx tk + 1\<rparr>
        in if startswith c ''3825'' \<or> startswith c ''0207'' then (Some c, tk')
           else find_cusip tk'
      else (None, tk))"
  by pat_completeness auto
termination
  by (relation "measure (\<lambda>tk. length (lines tk) - line_idx tk)") auto

declare find_cusip.simps [simp del]

text \<open>\<^verbatim>\<open>self.tokens.pop(0)\<close> cannot fail after a refill, because \<^verbatim>\<open>split\<close> never returns
  an empty list; the branch for an empty list is there for totality only.\<close>

definition next_token :: "Form1099Tokenizer \<Rightarrow> string option \<times> Form1099Tokenizer" where
  "next_token tk =
     (if tokens tk = [] \<and> length (lines tk) \<le> line_idx tk then (None, tk)
      else
        let tk' = (if tokens tk = []
                   then tk\<lparr>tokens := split_blank (lines tk ! line_idx tk),
                           line_idx := line_idx tk + 1\<rparr>
                   else tk)
        in (case tokens tk' of
              [] \<Rightarrow> (None, tk')
            | t # ts \<Rightarrow> (Some t, tk'\<lparr>tokens := ts\<rparr>)))"

definition cur_string_tokens_available :: "Form1099Tokenizer \<Rightarrow> bool" where
  "cur_string_tokens_available tk = (0 < length (tokens tk))"

text \<open>The message names line \<open>line_idx\<close> and shows \<^verbatim>\<open>lines[line_idx - 1]\<close>: with
  \<open>line_idx = 0\<close> that is Python's last line.\<close>

definition generate_parsing_error :: "Form1099Tokenizer \<Rightarrow> error" where
  "generate_parsing_error tk =
     ParseException (line_idx tk)
       (if lines tk = [] then []
        else if line_idx tk = 0 then last (lines tk)
        else if line_idx tk \<le> length (lines tk) then lines tk ! (line_idx tk - 1)
        else [])"

subsection \<open>Reading the tokens of one record (source lines 164 to 197)\<close>

text \<open>The raw tokens of a record; a token is \<open>None\<close> when \<^verbatim>\<open>next_token\<close> returned
  Python's \<^verbatim>\<open>None\<close> at the end of the input.\<close>

record 'f raw_record =
  r_num_shares :: 'f
  r_symbol :: "string option"
  r_acq_date :: "string option"
  r_proceeds :: "string option"
  r_basis :: "string option"
  r_wash :: "string option"
  r_sale_date :: "string option"

text \<open>Source lines 179 to 187: the token after the basis is either the noncovered flag
  \<^verbatim>\<open>X\<close> (then the wash text is empty) or the wash text, which the flag must follow.\<close>

definition read_flag ::
  "Form1099Tokenizer \<Rightarrow> error + (string option \<times> Form1099Tokenizer)" where
  "read_flag tk3 =
     (let (wash0, tk4) = next_token tk3;
          (wash1, non_covered, tk5) =
             (if wash0 = Some ''X'' then (Some [], Some ''X'', tk4)
              else let (nc, t) = next_token tk4 in (wash0, nc, t))
      in if non_covered \<noteq> Some ''X'' then Inl (generate_parsing_error tk5)
         else Inr (wash1, tk5))"

text \<open>Source lines 189 to 197: the sale date, then \<^verbatim>\<open>GROSS\<close>, or a wash text that
  replaces the one read before and then \<^verbatim>\<open>GROSS\<close>; nothing may be left on the line.\<close>

definition read_sale ::
  "string option \<Rightarrow> Form1099Tokenizer \<Rightarrow>
   error + ((string option \<times> string option) \<times> Form1099Tokenizer)" where
  "read_sale wash1 tk5 =
     (let (sale_date_tok, tk6) = next_token tk5;
          (maybe_wash_sale_amount, tk7) = next_token tk6
      in if maybe_wash_sale_amount \<noteq> Some ''GROSS'' then
           let (g, tk8) = next_token tk7 in
           if g \<noteq> Some ''GROSS'' then Inl (generate_parsing_error tk8)
           else if cur_string_tokens_available tk8 then Inl (generate_parsing_error tk8)
           else Inr ((maybe_wash_sale_amount, sale_date_tok), tk8)
         else if cur_string_tokens_available tk7 then Inl (generate_parsing_error tk7)
         else Inr ((wash1, sale_date_tok), tk7))"

text \<open>Source lines 176 to 197: the tokens from the acquisition date on.  The result is the
  acquisition date, proceeds, basis, wash and sale date texts, with the tokenizer after
  them.\<close>

definition read_amounts ::
  "Form1099Tokenizer \<Rightarrow>
   error + ((string option \<times> string option \<times> string option \<times> string option \<times> string option)
            \<times> Form1099Tokenizer)" where
  "read_amounts tk0 =
     (let (acq_date, tk1) = next_token tk0;
          (proceeds_tok, tk2) = next_token tk1;
          (basis_tok, tk3) = next_token tk2
      in case read_flag tk3 of
           Inl e \<Rightarrow> Inl e
         | Inr (wash1, tk5) \<Rightarrow>
             (case read_sale wash1 tk5 of
                Inl e \<Rightarrow> Inl e
              | Inr ((w, sale_date_tok), tk') \<Rightarrow>
                  Inr ((acq_date, proceeds_tok, basis_tok, w, sale_date_tok), tk')))"

text \<open>Source lines 164 to 174, then the amounts.  \<^verbatim>\<open>float(None)\<close> would be a TypeError,
  but a missing first token makes the \<^verbatim>\<open>SHARES\<close> test fail first.\<close>

definition read_tokens ::
  "'f pylib \<Rightarrow> Form1099Tokenizer \<Rightarrow> error + ('f raw_record \<times> Form1099Tokenizer)" where
  "read_tokens lib tk0 =
     (let (num_shares, tk1) = next_token tk0;
          (t_shares, tk2) = next_token tk1
      in if t_shares \<noteq> Some ''SHARES'' then Inl (generate_parsing_error tk2)
         else
           let (t_of, tk3) = next_token tk2
           in if t_of \<noteq> Some ''OF'' then Inl (generate_parsing_error tk3)
              else (case num_shares of
                      None \<Rightarrow> Inl TypeError
                    | Some ns \<Rightarrow>
                        (case float_of_str lib ns of
                           None \<Rightarrow> Inl (generate_parsing_error tk3)
                         | Some q \<Rightarrow>
                             let (symb, tk4) = next_token tk3
                             in if (symb \<noteq> Some ''GOOG'' \<and> symb \<noteq> Some ''GOOGL'')
                                   \<or> float_le_zero lib q
                                then Inl (generate_parsing_error tk4)
                                else (case read_amounts tk4 of
                                        Inl e \<Rightarrow> Inl e
                                      | Inr ((acq, pr, bs, w, sale), tk5) \<Rightarrow>
                                          Inr (\<lparr>r_num_shares = q, r_symbol = symb,
                                                r_acq_date = acq, r_proceeds = pr,
                                                r_basis = bs, r_wash = w,
                                                r_sale_date = sale\<rparr>, tk5)))))"

subsection \<open>Building the record (source lines 199 to 207)\<close>

text \<open>\<^verbatim>\<open>Decimal(text.replace(',', ''))\<close>, raising InvalidOperation on a malformed number.\<close>

definition to_decimal :: "string \<Rightarrow> error + decimal" where
  "to_decimal text =
     (case Decimal (remove_char CHR '','' text) of
        None \<Rightarrow> Inl InvalidOperation
      | Some d \<Rightarrow> Inr d)"

text \<open>The conversions run in the order of the source: sale date, proceeds, basis, wash,
  acquisition date.  An empty wash text gives no wash amount.  A token that is \<open>None\<close> here
  would be a TypeError or AttributeError; \<open>read_tokens\<close> never returns one.\<close>

definition build_record :: "string \<Rightarrow> 'f raw_record \<Rightarrow> error + 'f Record" where
  "build_record cusip_line raw =
     (case (r_symbol raw, r_sale_date raw, r_proceeds raw, r_basis raw, r_acq_date raw) of
        (Some symb, Some sale, Some pr, Some bs, Some acq) \<Rightarrow>
          (case strptime sale of
             None \<Rightarrow> Inl ValueError
           | Some sd \<Rightarrow>
               (case to_decimal pr of
                  Inl e \<Rightarrow> Inl e
                | Inr p \<Rightarrow>
                    (case to_decimal bs of
                       Inl e \<Rightarrow> Inl e
                     | Inr b \<Rightarrow>
                         (case (case r_wash raw of
                                  None \<Rightarrow> Inr None
                                | Some w \<Rightarrow>
                                    if w = [] then Inr None
                                    else (case to_decimal w of
                                            Inl e \<Rightarrow> Inl e
                                          | Inr d \<Rightarrow> Inr (Some d))) of
                            Inl e \<Rightarrow> Inl e
                          | Inr wopt \<Rightarrow>
                              (case strptime acq of
                                 None \<Rightarrow> Inl ValueError
                               | Some ad \<Rightarrow>
                                   Inr \<lparr>quantity = r_num_shares raw, symbol = symb,
                                        acquisition_date = ad, sale_date = sd,
                                        cusip = cusip_line, total_reported_basis = b,
                                        total_reported_wash = wopt,
                                        total_reported_proceeds = p\<rparr>)))))
      | _ \<Rightarrow> Inl TypeError)"

subsection \<open>\<^verbatim>\<open>parse1099Form\<close>\<close>

record 'f parse_state =
  tokenizer :: Form1099Tokenizer
  records :: "'f Record list"
  total_proceeds :: decimal
  total_basis :: decimal
  total_wash :: decimal
  total_num_records :: nat

text \<open>Source lines 209 to 216: log the record, add it to the three totals (an absent or
  false wash amount adds \<^verbatim>\<open>Decimal(0)\<close>), append it.\<close>

definition wash_or_zero :: "'f Record \<Rightarrow> decimal" where
  "wash_or_zero r =
     (case total_reported_wash r of
        None \<Rightarrow> zero0
      | Some w \<Rightarrow> if dec_bool w then w else zero0)"

definition accept_record ::
  "'f parse_state \<Rightarrow> 'f Record \<Rightarrow> Form1099Tokenizer \<Rightarrow> error + 'f parse_state" where
  "accept_record ps r tk =
     (if Record_str_raises r then Inl ValueError
      else (case dec_add (total_proceeds ps) (total_reported_proceeds r) of
              Inl e \<Rightarrow> Inl e
            | Inr p \<Rightarrow>
                (case dec_add (total_basis ps) (total_reported_basis r) of
                   Inl e \<Rightarrow> Inl e
                 | Inr b \<Rightarrow>
                     (case dec_add (total_wash ps) (wash_or_zero r) of
                        Inl e \<Rightarrow> Inl e
                      | Inr w \<Rightarrow>
                          Inr (ps\<lparr>tokenizer := tk, records := records ps @ [r],
                                  total_proceeds := p, total_basis := b, total_wash := w,
                                  total_num_records := total_num_records ps + 1\<rparr>)))))"

text \<open>One pass of the \<^verbatim>\<open>while True\<close> body after a CUSIP line was found.\<close>

definition parse_record ::
  "'f pylib \<Rightarrow> 'f parse_state \<Rightarrow> string \<Rightarrow> Form1099Tokenizer \<Rightarrow> error + 'f parse_state" where
  "parse_record lib ps cusip_line tk =
     (case read_tokens lib tk of
        Inl e \<Rightarrow> Inl e
      | Inr (raw, tk') \<Rightarrow>
          (case build_record cusip_line raw of
             Inl e \<Rightarrow> Inl e
           | Inr r \<Rightarrow> accept_record ps r tk'))"

lemma find_cusip_advances:
  "find_cusip tk = (Some c, tk') \<Longrightarrow>
   lines tk' = lines tk \<and> line_idx tk < line_idx tk' \<and> line_idx tk < length (lines tk)"
proof (induction tk rule: find_cusip.induct)
  case (1 tk)
  show ?case
  proof (cases "line_idx tk < length (lines tk)")
    case False
    with "1.prems" show ?thesis by (simp add: find_cusip.simps [of tk])
  next
    case True
    let ?c = "lines tk ! line_idx tk"
    let ?tk = "tk\<lparr>line_idx := line_idx tk + 1\<rparr>"
    show ?thesis
    proof (cases "startswith ?c ''3825'' \<or> startswith ?c ''0207''")
      case hit: True
      with True "1.prems" show ?thesis by (auto simp: find_cusip.simps [of tk] Let_def)
    next
      case miss: False
      with True "1.prems" have "find_cusip ?tk = (Some c, tk')"
        by (simp add: find_cusip.simps [of tk] Let_def)
      with "1.IH" [OF True refl refl miss] True show ?thesis by simp
    qed
  qed
qed

lemma next_token_monotone:
  "next_token tk = (t, tk') \<Longrightarrow> lines tk' = lines tk \<and> line_idx tk \<le> line_idx tk'"
  by (auto simp: next_token_def Let_def split: if_splits list.splits)

lemma read_flag_monotone:
  "read_flag tk = Inr (x, tk') \<Longrightarrow> lines tk' = lines tk \<and> line_idx tk \<le> line_idx tk'"
  unfolding read_flag_def Let_def
  by (auto split: prod.splits if_splits dest!: next_token_monotone)

lemma read_sale_monotone:
  "read_sale w tk = Inr (x, tk') \<Longrightarrow> lines tk' = lines tk \<and> line_idx tk \<le> line_idx tk'"
  unfolding read_sale_def Let_def
  by (auto split: prod.splits if_splits dest!: next_token_monotone)

lemma read_amounts_monotone:
  "read_amounts tk = Inr (x, tk') \<Longrightarrow> lines tk' = lines tk \<and> line_idx tk \<le> line_idx tk'"
  unfolding read_amounts_def Let_def
  by (auto split: prod.splits sum.splits
           dest!: next_token_monotone read_flag_monotone read_sale_monotone)

lemma read_tokens_monotone:
  "read_tokens lib tk = Inr (raw, tk') \<Longrightarrow>
   lines tk' = lines tk \<and> line_idx tk \<le> line_idx tk'"
  unfolding read_tokens_def Let_def
  by (auto split: prod.splits if_splits option.splits sum.splits
           dest!: next_token_monotone read_amounts_monotone)

lemma accept_record_tokenizer: "accept_record ps r tk = Inr ps' \<Longrightarrow> tokenizer ps' = tk"
  by (auto simp: accept_record_def split: if_splits sum.splits)

lemma parse_record_monotone:
  "parse_record lib ps c tk = Inr ps' \<Longrightarrow>
   lines (tokenizer ps') = lines tk \<and> line_idx tk \<le> line_idx (tokenizer ps')"
  by (auto simp: parse_record_def split: sum.splits prod.splits
           dest!: read_tokens_monotone accept_record_tokenizer)

text \<open>\<^verbatim>\<open>while True\<close>: stop when \<^verbatim>\<open>find_cusip\<close> finds nothing (or an empty text, which it
  never returns), otherwise parse a record and go on.\<close>

function parse_loop :: "'f pylib \<Rightarrow> 'f parse_state \<Rightarrow> error + 'f parse_state" where
  "parse_loop lib ps =
     (case find_cusip (tokenizer ps) of
        (None, tk) \<Rightarrow> Inr (ps\<lparr>tokenizer := tk\<rparr>)
      | (Some c, tk) \<Rightarrow>
          if c = [] then Inr (ps\<lparr>tokenizer := tk\<rparr>)
          else (case parse_record lib ps c tk of
                  Inl e \<Rightarrow> Inl e
                | Inr ps' \<Rightarrow> parse_loop lib ps'))"
  by pat_completeness auto
termination
proof (relation "measure (\<lambda>(lib, ps). length (lines (tokenizer ps)) - line_idx (tokenizer ps))")
  show "wf (measure (\<lambda>(lib :: 'f pylib, ps :: 'f parse_state).
              length (lines (tokenizer ps)) - line_idx (tokenizer ps)))"
    by simp
next
  fix lib :: "'f pylib" and ps :: "'f parse_state" and x tk c ps'
  assume f: "(x, tk) = find_cusip (tokenizer ps)" and x: "x = Some c"
    and p: "parse_record lib ps c tk = Inr ps'"
  from f x have "find_cusip (tokenizer ps) = (Some c, tk)" by simp
  from find_cusip_advances [OF this] parse_record_monotone [OF p]
  show "((lib, ps'), (lib, ps)) \<in>
          measure (\<lambda>(lib, ps). length (lines (tokenizer ps)) - line_idx (tokenizer ps))"
    by auto
qed

declare parse_loop.simps [simp del]

definition parse_start :: "string list \<Rightarrow> 'f parse_state" where
  "parse_start raw_lines =
     \<lparr>tokenizer = Form1099Tokenizer_init raw_lines, records = [],
      total_proceeds = zero2, total_basis = zero2, total_wash = zero2,
      total_num_records = 0\<rparr>"

text \<open>\<open>raw_lines\<close> is the text \<^verbatim>\<open>pdftotext\<close> printed, split at newlines.  The function
  returns the final state: the record list the source returns, and the totals it logs.\<close>

definition parse1099Form :: "'f pylib \<Rightarrow> string list \<Rightarrow> error + 'f parse_state" where
  "parse1099Form lib raw_lines = parse_loop lib (parse_start raw_lines)"

subsection \<open>The script as a whole\<close>

text \<open>
  \<open>taxform_main lib argv raw_lines\<close> gives the exception that ended the run (\<open>None\<close>: none)
  and the content of the output file (\<open>None\<close>: the file was never opened).
  \<^verbatim>\<open>records.sort(key=...)\<close> is a stable sort, as is \<open>sort_key\<close>.
\<close>

definition taxform_main ::
  "'f pylib \<Rightarrow> string list \<Rightarrow> string list \<Rightarrow> error option \<times> string option" where
  "taxform_main lib argv raw_lines =
     (if length argv < 3 then (Some IndexError, None)
      else
        let outfilename = argv ! 2 in
        case parse1099Form lib raw_lines of
          Inl e \<Rightarrow> (Some e, None)
        | Inr ps \<Rightarrow>
            let sorted_records = sort_key sale_date (records ps) in
            if length sorted_records = 0 then (Some NoRecords, None)
            else if endswith outfilename ''.txf''
                 then (None, Some (txf_records lib sorted_records))
                 else (Some UnexpectedFormat, None))"

subsection \<open>An instance of the library parameters\<close>

text \<open>
  The theorems below hold for every value of the parameters.  \<open>plain_lib\<close> is one value,
  used to run the model on sample inputs.  It covers plain literals only: digits with at
  most one point and an optional leading minus sign.  On such a text of at most fifteen
  significant digits, whose value is zero or at least 0.0001, \<^verbatim>\<open>float\<close> and
  \<^verbatim>\<open>'%s' %\<close> behave as \<open>plain_float\<close> and \<open>plain_str_float\<close> do, with the decimal number
  the text denotes standing for the float.  \<^verbatim>\<open>float\<close> also accepts surrounding blanks, a
  plus sign, exponents, underscores, infinities and NaN, all of which \<open>plain_float\<close>
  refuses; a longer literal is rounded to a binary float by CPython and kept exact here.
\<close>

definition pad :: "nat \<Rightarrow> string \<Rightarrow> string" where
  "pad n s = replicate (n - length s) CHR ''0'' @ s"

definition plain_literal :: "string \<Rightarrow> bool" where
  "plain_literal s =
     (let b = (case s of [] \<Rightarrow> s | x # t \<Rightarrow> if x = CHR ''-'' then t else s)
      in b \<noteq> [] \<and> list_all (\<lambda>c. is_digit c \<or> c = CHR ''.'') b
         \<and> length (filter (\<lambda>c. c = CHR ''.'') b) \<le> 1)"

definition plain_float :: "string \<Rightarrow> decimal option" where
  "plain_float s = (if plain_literal s then Decimal s else None)"

fun plain_le_zero :: "decimal \<Rightarrow> bool" where
  "plain_le_zero (Finite sg c e) = (sg \<or> c = 0)"
| "plain_le_zero _ = False"

text \<open>A number printed with \<open>k\<close> decimals, as \<^verbatim>\<open>'%.2f' % float(d)\<close> prints it for \<open>k = 2\<close>
  when \<open>d\<close> has at most fifteen significant digits and at most two decimals.  When digits
  are dropped the decimal number is rounded half-even here; CPython rounds the binary
  float nearest to \<open>d\<close>, which can differ in the last digit (\<^verbatim>\<open>2.675\<close> gives \<^verbatim>\<open>2.67\<close>
  there and \<^verbatim>\<open>2.68\<close> here).\<close>

fun plain_fixed :: "nat \<Rightarrow> decimal \<Rightarrow> string" where
  "plain_fixed k (Finite sg c e) =
     (let n = (if - int k \<le> e then c * 10 ^ nat (e + int k)
               else round_half_even c (nat (- int k - e)))
      in (if sg then [CHR ''-''] else []) @ str_nat (n div 10 ^ k) @ [CHR ''.'']
         @ pad k (str_nat (n mod 10 ^ k)))"
| "plain_fixed k (Infinity sg) = (if sg then ''-inf'' else ''inf'')"
| "plain_fixed k (NaN sg) = ''nan''"

text \<open>\<open>drop_zeros c k\<close> removes the trailing zeros among the last \<open>k\<close> digits of \<open>c\<close>, and
  returns what is left with the number of decimals left.\<close>

fun drop_zeros :: "nat \<Rightarrow> nat \<Rightarrow> nat \<times> nat" where
  "drop_zeros c 0 = (c, 0)"
| "drop_zeros c (Suc k) = (if c mod 10 = 0 then drop_zeros (c div 10) k else (c, Suc k))"

text \<open>\<^verbatim>\<open>'%s' % x\<close> for a float: the shortest text that reads back as \<open>x\<close>, with at least one
  decimal (\<^verbatim>\<open>2.0\<close>, \<^verbatim>\<open>1.5\<close>, \<^verbatim>\<open>16.5432\<close>).\<close>

fun plain_str_float :: "decimal \<Rightarrow> string" where
  "plain_str_float (Finite sg c e) =
     (if 0 \<le> e then plain_fixed 1 (Finite sg c e)
      else let (c', k) = drop_zeros c (nat (- e))
           in plain_fixed (max 1 k) (Finite sg c' (- int k)))"
| "plain_str_float (Infinity sg) = (if sg then ''-inf'' else ''inf'')"
| "plain_str_float (NaN sg) = ''nan''"

text \<open>\<^verbatim>\<open>d.strftime('%m/%d/%Y')\<close> with the C library's \<^verbatim>\<open>%Y\<close>, which does not pad the
  year.\<close>

definition plain_strftime :: "date \<Rightarrow> string" where
  "plain_strftime d =
     (case d of (y, m, dd) \<Rightarrow>
        pad 2 (str_nat m) @ [CHR ''/''] @ pad 2 (str_nat dd) @ [CHR ''/''] @ str_nat y)"

definition plain_lib :: "decimal pylib" where
  "plain_lib =
     \<lparr>float_of_str = plain_float, float_le_zero = plain_le_zero,
      str_float = plain_str_float, fmt_2f = plain_fixed 2,
      strftime = plain_strftime, today = ''04/15/2021''\<rparr>"

section \<open>Invariants of the two loops\<close>

lemma convert_loop_invariant:
  assumes "convert_loop ls st0 = (err, st)" and "P st0"
    and "\<And>s s'. P s \<Longrightarrow> input_line s < length ls \<Longrightarrow> convert_step ls s = Inr s' \<Longrightarrow> P s'"
  shows "P st"
  using assms
proof (induction ls st0 rule: convert_loop.induct)
  case (1 ls s)
  show ?case
  proof (cases "input_line s < length ls")
    case False
    with "1.prems"(1,2) show ?thesis by (simp add: convert_loop.simps [of ls s])
  next
    case True
    show ?thesis
    proof (cases "convert_step ls s")
      case (Inl e)
      with True "1.prems"(1,2) show ?thesis by (simp add: convert_loop.simps [of ls s])
    next
      case (Inr s')
      with True "1.prems"(1) have "convert_loop ls s' = (err, st)"
        by (simp add: convert_loop.simps [of ls s])
      moreover have "P s'" using "1.prems"(3) [OF "1.prems"(2) True Inr] .
      ultimately show ?thesis using "1.IH" [OF True Inr] "1.prems"(3) by blast
    qed
  qed
qed

lemma parse_loop_invariant:
  assumes "parse_loop lib ps0 = Inr ps" and "P ps0"
    and "\<And>s c tk s'. P s \<Longrightarrow> find_cusip (tokenizer s) = (Some c, tk) \<Longrightarrow>
           parse_record lib s c tk = Inr s' \<Longrightarrow> P s'"
    and "\<And>s tk. P s \<Longrightarrow> P (s\<lparr>tokenizer := tk\<rparr>)"
  shows "P ps"
  using assms
proof (induction lib ps0 rule: parse_loop.induct)
  case (1 lib s)
  obtain x tk where f: "find_cusip (tokenizer s) = (x, tk)" by (cases "find_cusip (tokenizer s)")
  show ?case
  proof (cases x)
    case None
    with f "1.prems"(1,2,4) show ?thesis by (auto simp: parse_loop.simps [of lib s])
  next
    case (Some c)
    show ?thesis
    proof (cases "c = []")
      case True
      with f Some "1.prems"(1,2,4) show ?thesis by (auto simp: parse_loop.simps [of lib s])
    next
      case False
      show ?thesis
      proof (cases "parse_record lib s c tk")
        case (Inl e)
        with f Some False "1.prems"(1) show ?thesis by (simp add: parse_loop.simps [of lib s])
      next
        case (Inr s')
        with f Some False "1.prems"(1) have "parse_loop lib s' = Inr ps"
          by (simp add: parse_loop.simps [of lib s])
        moreover have "P s'" using "1.prems"(3) [OF "1.prems"(2) _ Inr] f Some by simp
        ultimately show ?thesis
          using "1.IH" [OF f [symmetric] Some False Inr] "1.prems"(3,4) by blast
      qed
    qed
  qed
qed

section \<open>Sample inputs\<close>

definition sample_argv :: "string list" where
  "sample_argv = [''taxform_parser.py'', ''GOOG.pdf'', ''GOOG.txf'']"

text \<open>Three records in the three layouts the source's comments show; the first and the last
  are sold on the same day.\<close>

definition three_sales :: "string list" where
  "three_sales =
     [''02079K107'', ''16.5432 SHARES OF GOOG 08/25/2020 27,212.97 26,273.91 X'',
      ''08/28/2020 GROSS'',
      ''02079K305'', ''1.0 SHARES OF GOOGL'', ''11/25/2015 730.98 769.63 X'', ''05/24/2016'',
      ''200.00'', ''GROSS'',
      ''02079K107'', ''2 SHARES OF GOOG'', ''01/27/2020 2,933.94 2,933.42 X'',
      ''08/28/2020 GROSS'']"

section \<open>Ordering of the emitted records\<close>

lemma sort_key_Nil_iff: "sort_key f xs = [] \<longleftrightarrow> xs = []"
  by (metis length_0_conv length_sort)

lemma count_list_insort_key: "count_list (insort_key f x xs) y = count_list (x # xs) y"
  by (induction xs) auto

lemma count_list_sort_key: "count_list (sort_key f xs) y = count_list xs y"
  by (induction xs) (auto simp: count_list_insort_key)

text \<open>
  Claim C7.  The tokenizing converter always sorts.  Whenever it writes its output file, the
  file is the header followed by the blocks of a list \<open>rs\<close> of records that is a
  rearrangement of the parsed records, is in non-decreasing sale-date order, and keeps
  records with the same sale date in their input order.
\<close>

theorem sale_date_order_stable:
  "fst (taxform_main lib argv raw_lines) = None \<Longrightarrow>
   \<exists>ps rs. parse1099Form lib raw_lines = Inr ps \<and>
     snd (taxform_main lib argv raw_lines) =
       Some (unlines [''V042'', ''A quick and dirty TXF script'', ''D'' @ today lib, ''^'']
             @ concat (map (\<lambda>r. unlines (txf_record_lines lib r)) rs)) \<and>
     (\<forall>r. count_list rs r = count_list (records ps) r) \<and>
     sorted (map sale_date rs) \<and>
     (\<forall>d. filter (\<lambda>r. sale_date r = d) rs = filter (\<lambda>r. sale_date r = d) (records ps))"
proof -
  assume a: "fst (taxform_main lib argv raw_lines) = None"
  then obtain ps where p: "parse1099Form lib raw_lines = Inr ps"
    by (auto simp: taxform_main_def Let_def split: if_splits sum.splits)
  let ?rs = "sort_key sale_date (records ps)"
  from a p have "snd (taxform_main lib argv raw_lines) = Some (txf_records lib ?rs)"
    by (auto simp: taxform_main_def Let_def split: if_splits)
  moreover have "\<forall>r. count_list ?rs r = count_list (records ps) r"
    by (simp add: count_list_sort_key)
  moreover have "sorted (map sale_date ?rs)" by simp
  moreover have "\<forall>d. filter (\<lambda>r. sale_date r = d) ?rs = filter (\<lambda>r. sale_date r = d) (records ps)"
    by (simp add: sort_key_stable)
  ultimately show ?thesis using p unfolding txf_records_def by blast
qed

theorem sale_date_order_stable_witness:
  "fst (taxform_main plain_lib sample_argv three_sales) = None \<and>
   (\<exists>ps rs. parse1099Form plain_lib three_sales = Inr ps \<and>
     snd (taxform_main plain_lib sample_argv three_sales) =
       Some (unlines [''V042'', ''A quick and dirty TXF script'', ''D'' @ today plain_lib, ''^'']
             @ concat (map (\<lambda>r. unlines (txf_record_lines plain_lib r)) rs)) \<and>
     (\<forall>r. count_list rs r = count_list (records ps) r) \<and>
     sorted (map sale_date rs) \<and>
     (\<forall>d. filter (\<lambda>r. sale_date r = d) rs = filter (\<lambda>r. sale_date r = d) (records ps)))"
proof -
  have h: "fst (taxform_main plain_lib sample_argv three_sales) = None"
    by code_simp
  show ?thesis
    by (rule conjI [OF h sale_date_order_stable [OF h]])
qed

section \<open>When the tokenizing converter writes its output file\<close>

text \<open>
  Claim C10.  If parsing succeeds with no record, the run ends with an exception and no
  output file (the exception is the ``no records'' one unless fewer than two arguments were
  given, which fails before parsing).  An output file exists exactly when parsing succeeded
  with at least one record and the output name ends in \<^verbatim>\<open>.txf\<close>.
\<close>

theorem output_needs_records_and_extension:
  "(\<forall>ps. parse1099Form lib raw_lines = Inr ps \<longrightarrow> records ps = [] \<longrightarrow>
      snd (taxform_main lib argv raw_lines) = None \<and>
      fst (taxform_main lib argv raw_lines) \<in> {Some NoRecords, Some IndexError}) \<and>
   ((\<exists>text. snd (taxform_main lib argv raw_lines) = Some text) \<longleftrightarrow>
      (\<exists>ps. parse1099Form lib raw_lines = Inr ps \<and> records ps \<noteq> [] \<and>
            3 \<le> length argv \<and> endswith (argv ! 2) ''.txf''))"
  by (auto simp: taxform_main_def Let_def sort_key_Nil_iff split: if_splits sum.splits)

theorem output_needs_records_and_extension_witness:
  "(case parse1099Form plain_lib [''no identifier here''] of
      Inl e \<Rightarrow> False | Inr ps \<Rightarrow> records ps = []) \<and>
   taxform_main plain_lib sample_argv [''no identifier here''] = (Some NoRecords, None)"
proof -
  let ?L = "[''no identifier here'']"
  have h: "case parse1099Form plain_lib ?L of Inl e \<Rightarrow> False | Inr ps \<Rightarrow> records ps = []"
    by code_simp
  then obtain ps where p: "parse1099Form plain_lib ?L = Inr ps" and r: "records ps = []"
    by (auto split: sum.splits)
  have l: "\<not> length sample_argv < 3" by (simp add: sample_argv_def)
  from output_needs_records_and_extension [of plain_lib ?L sample_argv] p r
  have "snd (taxform_main plain_lib sample_argv ?L) = None"
    and "fst (taxform_main plain_lib sample_argv ?L) \<in> {Some NoRecords, Some IndexError}"
    by blast+
  moreover have "fst (taxform_main plain_lib sample_argv ?L) \<noteq> Some IndexError"
    using l p r by (simp add: taxform_main_def Let_def)
  ultimately have "taxform_main plain_lib sample_argv ?L = (Some NoRecords, None)"
    by (cases "taxform_main plain_lib sample_argv ?L") auto
  with h show ?thesis by blast
qed

section \<open>What the checkbox-driven converter writes\<close>

text \<open>What one pass of the loop can do to the state.\<close>

lemma convert_step_cases:
  assumes "convert_step ls s = Inr s'"
  shows "(history s' = history s \<and> output_file s' = output_file s \<and> totals s' = totals s) \<or>
         (\<exists>cat it j t n.
            txf_category s = Some cat \<and> ls ! input_line s \<in> set (map snd CUSIPS) \<and>
            read_item ls (input_line s) = Inr (it, j) \<and>
            add_totals (lookup_totals (totals s) cat) it = Inr t \<and>
            map_of TXF_CATEGORIES cat = Some n \<and>
            s' = s\<lparr>input_line := j, totals := (totals s)(cat \<mapsto> t),
                    output_file := output_file s @ [txf_item n it],
                    history := history s @ [(cat, it)]\<rparr>)"
  using assms
  by (auto simp: convert_step_def emit_item_def Let_def
           split: option.splits if_splits sum.splits prod.splits)

definition block_of :: "string \<times> item \<Rightarrow> TxfRecord \<Rightarrow> bool" where
  "block_of e b = (\<exists>n. map_of TXF_CATEGORIES (fst e) = Some n \<and> b = txf_item n (snd e))"

lemma convert_loop_output:
  assumes "convert_loop ls (initial_state t) = (err, st)"
  shows "\<exists>bs. output_file st = header t # bs \<and> list_all2 block_of (history st) bs"
proof (rule convert_loop_invariant [OF assms])
  show "\<exists>bs. output_file (initial_state t) = header t # bs \<and>
          list_all2 block_of (history (initial_state t)) bs"
    by (simp add: initial_state_def)
next
  fix s s'
  assume inv: "\<exists>bs. output_file s = header t # bs \<and> list_all2 block_of (history s) bs"
    and step: "convert_step ls s = Inr s'"
  then obtain bs where bs: "output_file s = header t # bs" "list_all2 block_of (history s) bs"
    by blast
  from convert_step_cases [OF step]
  show "\<exists>bs. output_file s' = header t # bs \<and> list_all2 block_of (history s') bs"
  proof
    assume "history s' = history s \<and> output_file s' = output_file s \<and> totals s' = totals s"
    with bs show ?thesis by auto
  next
    assume "\<exists>cat it j t n.
            txf_category s = Some cat \<and> ls ! input_line s \<in> set (map snd CUSIPS) \<and>
            read_item ls (input_line s) = Inr (it, j) \<and>
            add_totals (lookup_totals (totals s) cat) it = Inr t \<and>
            map_of TXF_CATEGORIES cat = Some n \<and>
            s' = s\<lparr>input_line := j, totals := (totals s)(cat \<mapsto> t),
                    output_file := output_file s @ [txf_item n it],
                    history := history s @ [(cat, it)]\<rparr>"
    then obtain cat it j tt n where
      n: "map_of TXF_CATEGORIES cat = Some n" and
      s': "s' = s\<lparr>input_line := j, totals := (totals s)(cat \<mapsto> tt),
                    output_file := output_file s @ [txf_item n it],
                    history := history s @ [(cat, it)]\<rparr>"
      by blast
    have "block_of (cat, it) (txf_item n it)" using n by (simp add: block_of_def)
    with bs have "list_all2 block_of (history s @ [(cat, it)]) (bs @ [txf_item n it])"
      by (simp add: list_all2_appendI)
    with bs s' show ?thesis by auto
  qed
qed

lemma refnum_values: "map_of TXF_CATEGORIES cat = Some n \<Longrightarrow>
  (cat = ''B'' \<and> n = 711) \<or> (cat = ''E'' \<and> n = 713)"
  by (auto simp: TXF_CATEGORIES_def split: if_splits)

lemma txf_item_refnum: "[v. (op, v) \<leftarrow> txf_item n it, op = ''N''] = [I n]"
  by (simp add: txf_item_def addField_def Let_def split: option.splits)

lemma txf_item_dollars:
  "[v. (op, v) \<leftarrow> txf_item n it, op = ''$''] =
     (case l_wash it of None \<Rightarrow> [S (l_basis it), S (l_proceeds it)]
      | Some w \<Rightarrow> [S (l_basis it), S (l_proceeds it), S w])"
  by (simp add: txf_item_def addField_def Let_def split: option.splits)

lemma txf_record_lines_N:
  "filter (\<lambda>l. startswith l ''N'') (txf_record_lines lib r) = [''N715'']"
  by (simp add: txf_record_lines_def startswith_def)


subsection \<open>More sample inputs\<close>

definition conv_argv :: "string list" where
  "conv_argv = [''convert-1099B-2022.py'', ''1099.pdf'', ''1099.txf'']"

definition two_boxes :: "string list" where
  "two_boxes =
     [''Box B checked'',
      ''02079K107'', ''3 SHARES OF GOOG'', ''07/25/2019 4,498.54 3,413.43 1,100.22 X'',
      ''08/06/2020 GROSS'',
      ''Box E checked'',
      ''02079K305'', ''1 SHARE OF GOOGL 08/25/2018 1,212.97 1,273.91 X'', ''08/28/2020 GROSS'']"

definition one_sale :: "string list" where
  "one_sale =
     [''02079K107'', ''2 SHARES OF GOOG'', ''01/27/2020 2,933.94 2,933.42 X'',
      ''02/06/2020 GROSS'']"

subsection \<open>Category refnumbers\<close>

lemma convert_file:
  assumes "length argv = 3"
  shows "\<exists>bs. fst (snd (convert argv t ls)) = Some (file_text (header t # bs)) \<and>
          list_all2 block_of (history (snd (snd (convert argv t ls)))) bs"
proof -
  obtain err st where l: "convert_loop ls (initial_state t) = (err, st)"
    by (cases "convert_loop ls (initial_state t)")
  from convert_loop_output [OF l] obtain bs where
    "output_file st = header t # bs" "list_all2 block_of (history st) bs" by blast
  with l assms show ?thesis by (auto simp: convert_def)
qed

text \<open>Claim C6 as stated fails on the tokenizing converter: the block below carries the
  refnumber 715, which is no value of the lookup.\<close>

theorem refnumber_715_counterexample:
  "snd (taxform_main plain_lib sample_argv one_sale) =
     Some (unlines [''V042'', ''A quick and dirty TXF script'', ''D04/15/2021'', ''^'',
                    ''TD'', ''N715'', ''C1'', ''L1'', ''P2.0 GOOG'', ''D01/27/2020'',
                    ''D02/06/2020'', ''$2933.42'', ''$2933.94'', ''$'', ''^'']) \<and>
   715 \<notin> snd ` set TXF_CATEGORIES"
  by code_simp


subsection \<open>The optional wash line\<close>

definition googl_sale :: "string list" where
  "googl_sale =
     [''02079K305'', ''1.0 SHARES OF GOOGL'', ''11/25/2015 730.98 769.63 X'',
      ''05/24/2016 GROSS'']"

lemma txf_record_lines_dollars:
  "filter (\<lambda>l. startswith l ''$'') (txf_record_lines lib r) =
     [''$'' @ fmt_2f lib (total_reported_basis r),
      ''$'' @ fmt_2f lib (total_reported_proceeds r),
      ''$'' @ compute_total_wash lib r]"
  by (simp add: txf_record_lines_def startswith_def compute_total_basis_def)

text \<open>Claim C2 as stated fails on the tokenizing converter: the record below has no wash
  amount, and its block has a third \<^verbatim>\<open>$\<close> line with an empty amount.\<close>

theorem empty_wash_line_counterexample:
  "(case parse1099Form plain_lib googl_sale of
      Inl e \<Rightarrow> False
    | Inr ps \<Rightarrow> map total_reported_wash (records ps) = [None]) \<and>
   snd (taxform_main plain_lib sample_argv googl_sale) =
     Some (unlines [''V042'', ''A quick and dirty TXF script'', ''D04/15/2021'', ''^'',
                    ''TD'', ''N715'', ''C1'', ''L1'', ''P1.0 GOOGL'', ''D11/25/2015'',
                    ''D05/24/2016'', ''$769.63'', ''$730.98'', ''$'', ''^''])"
  by code_simp

subsection \<open>An identifier line before any marker\<close>

lemma cusip_not_box: "c \<in> set (map snd CUSIPS) \<Longrightarrow> re_search box_rx c = None"
proof -
  have a: "re_search box_rx ''02079K305'' = None" by code_simp
  have b: "re_search box_rx ''02079K107'' = None" by code_simp
  assume "c \<in> set (map snd CUSIPS)"
  then have "c = ''02079K305'' \<or> c = ''02079K107''" by (simp add: CUSIPS_def)
  with a b show ?thesis by blast
qed

lemma no_checkbox_loop:
  assumes "i < length ls" and "ls ! i \<in> set (map snd CUSIPS)"
    and "\<forall>j<i. re_search box_rx (ls ! j) = None"
  shows "input_line s \<le> i \<Longrightarrow> txf_category s = None \<Longrightarrow>
         \<exists>k. convert_loop ls s = (Some NoCheckbox, s\<lparr>input_line := k\<rparr>)"
proof (induction "i - input_line s" arbitrary: s)
  case 0
  then have k: "input_line s = i" by simp
  with assms have "convert_step ls s = Inl NoCheckbox"
    using "0.prems" by (simp add: convert_step_def cusip_not_box)
  with k assms(1) have "convert_loop ls s = (Some NoCheckbox, s)"
    by (simp add: convert_loop.simps [of ls s])
  then have "convert_loop ls s = (Some NoCheckbox, s\<lparr>input_line := input_line s\<rparr>)" by simp
  then show ?case by blast
next
  case (Suc d)
  then have lt: "input_line s < i" by simp
  with assms(1) have len: "input_line s < length ls" by simp
  from lt assms(3) have nobox: "re_search box_rx (ls ! input_line s) = None" by simp
  show ?case
  proof (cases "ls ! input_line s \<in> set (map snd CUSIPS)")
    case True
    with nobox Suc.prems have "convert_step ls s = Inl NoCheckbox"
      by (simp add: convert_step_def)
    with len have "convert_loop ls s = (Some NoCheckbox, s\<lparr>input_line := input_line s\<rparr>)"
      by (simp add: convert_loop.simps [of ls s])
    then show ?thesis by blast
  next
    case False
    let ?s = "s\<lparr>input_line := input_line s + 1\<rparr>"
    from False nobox have st: "convert_step ls s = Inr ?s"
      by (simp add: convert_step_def)
    have "\<exists>k. convert_loop ls ?s = (Some NoCheckbox, ?s\<lparr>input_line := k\<rparr>)"
      using Suc.hyps(2) lt Suc.prems by (intro Suc.hyps(1)) auto
    with st len show ?thesis by (auto simp: convert_loop.simps [of ls s])
  qed
qed

text \<open>
  Claim C8, as amended.  When a line equal to a registered CUSIP comes before any line
  with a ``Box X checked'' marker, the run stops with the ``could not determine
  checkbox'' exit and no record is written; the output file, opened before the first line
  is read, is left holding the header.
\<close>

theorem identifier_before_marker:
  "length argv = 3 \<Longrightarrow> i < length ls \<Longrightarrow> ls ! i \<in> set (map snd CUSIPS) \<Longrightarrow>
   \<forall>j<i. re_search box_rx (ls ! j) = None \<Longrightarrow>
   fst (convert argv t ls) = Some NoCheckbox \<and>
   fst (snd (convert argv t ls)) = Some (file_text [header t]) \<and>
   history (snd (snd (convert argv t ls))) = []"
proof -
  assume a: "length argv = 3" and i: "i < length ls" "ls ! i \<in> set (map snd CUSIPS)"
    "\<forall>j<i. re_search box_rx (ls ! j) = None"
  from no_checkbox_loop [OF i, of "initial_state t"] obtain k where
    "convert_loop ls (initial_state t) = (Some NoCheckbox, (initial_state t)\<lparr>input_line := k\<rparr>)"
    by (auto simp: initial_state_def)
  with a show ?thesis by (simp add: convert_def initial_state_def)
qed

definition unmarked :: "string list" where
  "unmarked =
     [''Schwab One Account'', ''02079K107'', ''3 SHARES OF GOOG'',
      ''07/25/2019 4,498.54 3,413.43 1,100.22 X'', ''08/06/2020 GROSS'']"

theorem identifier_before_marker_witness:
  "length conv_argv = 3 \<and> 1 < length unmarked \<and> unmarked ! 1 \<in> set (map snd CUSIPS) \<and>
   re_search box_rx (unmarked ! 0) = None \<and>
   fst (convert conv_argv ''04/15/2021'' unmarked) = Some NoCheckbox \<and>
   fst (snd (convert conv_argv ''04/15/2021'' unmarked)) = Some (file_text [header ''04/15/2021'']) \<and>
   history (snd (snd (convert conv_argv ''04/15/2021'' unmarked))) = []"
proof -
  have l: "length conv_argv = 3" by (simp add: conv_argv_def)
  have i: "1 < length unmarked" by (simp add: unmarked_def)
  have c: "unmarked ! 1 \<in> set (map snd CUSIPS)" by (simp add: unmarked_def CUSIPS_def)
  have b0: "re_search box_rx (unmarked ! 0) = None" by code_simp
  then have b: "\<forall>j<1. re_search box_rx (unmarked ! j) = None" by simp
  from identifier_before_marker [OF l i c b, of "''04/15/2021''"] l i c b0
  show ?thesis by blast
qed

text \<open>Claim C8 as stated fails: the run below stops with the fatal error, and the output
  file exists, holding the header.\<close>

theorem header_file_left_counterexample:
  "fst (convert conv_argv ''04/15/2021'' unmarked) = Some NoCheckbox \<and>
   fst (snd (convert conv_argv ''04/15/2021'' unmarked)) =
     Some (unlines [''V042'', ''ASelf'', ''D04/15/2021'', ''^''])"
  by code_simp

section \<open>What a record must pass to be accepted\<close>

subsection \<open>Facts about the records of the tokenizing converter\<close>

lemma find_cusip_prefix:
  "find_cusip tk = (Some c, tk') \<Longrightarrow> startswith c ''3825'' \<or> startswith c ''0207''"
proof (induction tk rule: find_cusip.induct)
  case (1 tk)
  show ?case
  proof (cases "line_idx tk < length (lines tk)")
    case False
    with "1.prems" show ?thesis by (simp add: find_cusip.simps [of tk])
  next
    case True
    let ?c = "lines tk ! line_idx tk"
    show ?thesis
    proof (cases "startswith ?c ''3825'' \<or> startswith ?c ''0207''")
      case hit: True
      with True "1.prems" show ?thesis by (auto simp: find_cusip.simps [of tk] Let_def)
    next
      case miss: False
      with True "1.prems" have "find_cusip (tk\<lparr>line_idx := line_idx tk + 1\<rparr>) = (Some c, tk')"
        by (simp add: find_cusip.simps [of tk] Let_def)
      with "1.IH" [OF True refl refl miss] show ?thesis by simp
    qed
  qed
qed

lemma accept_record_records:
  "accept_record ps r tk = Inr ps' \<Longrightarrow> records ps' = records ps @ [r]"
  by (auto simp: accept_record_def split: if_splits sum.splits)

lemma parse_record_cases:
  assumes "parse_record lib ps c tk = Inr ps'"
  shows "\<exists>raw tk' r. read_tokens lib tk = Inr (raw, tk') \<and> build_record c raw = Inr r \<and>
           accept_record ps r tk' = Inr ps' \<and> records ps' = records ps @ [r]"
proof -
  from assms obtain raw tk' r where
    a: "read_tokens lib tk = Inr (raw, tk')" "build_record c raw = Inr r"
       "accept_record ps r tk' = Inr ps'"
    by (auto simp: parse_record_def split: sum.splits prod.splits)
  from a(3) have "records ps' = records ps @ [r]" by (rule accept_record_records)
  with a show ?thesis by blast
qed

lemma parse_records_all:
  assumes "parse1099Form lib raw_lines = Inr ps"
    and "\<And>c tk tk0 raw tk' r. find_cusip tk0 = (Some c, tk) \<Longrightarrow>
           read_tokens lib tk = Inr (raw, tk') \<Longrightarrow> build_record c raw = Inr r \<Longrightarrow> Q r"
  shows "\<forall>r \<in> set (records ps). Q r"
proof (rule parse_loop_invariant [OF assms(1) [unfolded parse1099Form_def]])
  show "\<forall>r \<in> set (records (parse_start raw_lines :: 'a parse_state)). Q r"
    by (simp add: parse_start_def)
next
  fix s :: "'a parse_state" and c tk s'
  assume inv: "\<forall>r \<in> set (records s). Q r"
    and f: "find_cusip (tokenizer s) = (Some c, tk)"
    and p: "parse_record lib s c tk = Inr s'"
  from parse_record_cases [OF p] obtain raw tk' r where
    "read_tokens lib tk = Inr (raw, tk')" "build_record c raw = Inr r"
    "records s' = records s @ [r]" by blast
  with inv assms(2) [OF f] show "\<forall>r \<in> set (records s'). Q r" by auto
next
  fix s :: "'a parse_state" and tk
  assume "\<forall>r \<in> set (records s). Q r"
  then show "\<forall>r \<in> set (records (s\<lparr>tokenizer := tk\<rparr>)). Q r" by simp
qed

lemma read_tokens_checked:
  assumes "read_tokens lib tk = Inr (raw, tk')"
  shows "\<not> float_le_zero lib (r_num_shares raw) \<and>
         (r_symbol raw = Some ''GOOG'' \<or> r_symbol raw = Some ''GOOGL'') \<and>
         (\<exists>ns. fst (next_token tk) = Some ns \<and> float_of_str lib ns = Some (r_num_shares raw))"
  using assms unfolding read_tokens_def Let_def
  by (auto split: prod.splits if_splits option.splits sum.splits)

lemma build_record_fields:
  assumes "build_record c raw = Inr r"
  shows "quantity r = r_num_shares raw \<and> cusip r = c \<and> r_symbol raw = Some (symbol r)"
  using assms unfolding build_record_def
  by (auto split: option.splits sum.splits if_splits)

lemma read_tokens_rejects_nonpositive:
  assumes "fst (next_token tk) = Some ns" and "float_of_str lib ns = Some q"
    and "float_le_zero lib q"
  shows "\<exists>e. read_tokens lib tk = Inl e"
proof (cases "read_tokens lib tk")
  case (Inl e)
  then show ?thesis by blast
next
  case (Inr x)
  then obtain raw tk' where "read_tokens lib tk = Inr (raw, tk')" by (cases x) auto
  from read_tokens_checked [OF this] assms show ?thesis by auto
qed

subsection \<open>The quantity\<close>

lemma minus_not_shares: "rx_run shares_of_rx (g, CHR ''-'' # s) = []"
  by (simp add: shares_of_rx_def seqs_def digits_def)

lemma minus_not_matched:
  "re_match combined_rx (CHR ''-'' # s) = None" "re_match line2_rx (CHR ''-'' # s) = None"
  by (simp_all add: re_match_def combined_rx_def line2_rx_def seqs_def minus_not_shares)

lemma read_item_rejects_minus:
  assumes "i + 3 \<le> length ls" and "ls ! (i + 1) = CHR ''-'' # s"
  shows "read_item ls i = Inl (LineError (i + 2) (ls ! (i + 1)))"
  using assms by (simp add: read_item_def Let_def minus_not_matched)


definition zero_shares :: "string list" where
  "zero_shares =
     [''02079K107'', ''0 SHARES OF GOOG'', ''01/27/2020 2,933.94 2,933.42 X'',
      ''02/06/2020 GROSS'']"

definition zero_shares_box :: "string list" where
  "zero_shares_box =
     [''Box B checked'', ''02079K107'', ''0 SHARES OF GOOG'',
      ''07/25/2019 4,498.54 3,413.43 X'', ''08/06/2020 GROSS'']"

text \<open>Claim C3 as stated fails on the checkbox-driven converter: the run below accepts a
  record of 0 shares and writes its block.\<close>

theorem zero_quantity_accepted_counterexample:
  "fst (convert conv_argv ''04/15/2021'' zero_shares_box) = None \<and>
   fst (snd (convert conv_argv ''04/15/2021'' zero_shares_box)) =
     Some (unlines [''V042'', ''ASelf'', ''D04/15/2021'', ''^'',
                    ''TD'', ''N711'', ''P0 SHARES OF GOOG'', ''D07/25/2019'', ''D08/06/2020'',
                    ''$3,413.43'', ''$4,498.54'', ''^''])"
  by code_simp

subsection \<open>The identifier\<close>

lemma convert_history_all:
  assumes "convert_loop ls (initial_state t) = (err, st)"
    and "\<And>i cat it j. i < length ls \<Longrightarrow> ls ! i \<in> set (map snd CUSIPS) \<Longrightarrow>
           read_item ls i = Inr (it, j) \<Longrightarrow> Q (cat, it)"
  shows "\<forall>e \<in> set (history st). Q e"
proof (rule convert_loop_invariant [OF assms(1)])
  show "\<forall>e \<in> set (history (initial_state t)). Q e" by (simp add: initial_state_def)
next
  fix s s'
  assume inv: "\<forall>e \<in> set (history s). Q e" and len: "input_line s < length ls"
    and step: "convert_step ls s = Inr s'"
  from convert_step_cases [OF step] show "\<forall>e \<in> set (history s'). Q e"
  proof
    assume "history s' = history s \<and> output_file s' = output_file s \<and> totals s' = totals s"
    with inv show ?thesis by simp
  next
    assume "\<exists>cat it j t n.
            txf_category s = Some cat \<and> ls ! input_line s \<in> set (map snd CUSIPS) \<and>
            read_item ls (input_line s) = Inr (it, j) \<and>
            add_totals (lookup_totals (totals s) cat) it = Inr t \<and>
            map_of TXF_CATEGORIES cat = Some n \<and>
            s' = s\<lparr>input_line := j, totals := (totals s)(cat \<mapsto> t),
                    output_file := output_file s @ [txf_item n it],
                    history := history s @ [(cat, it)]\<rparr>"
    then obtain cat it j tt n where
      c: "ls ! input_line s \<in> set (map snd CUSIPS)"
      and r: "read_item ls (input_line s) = Inr (it, j)"
      and s': "s' = s\<lparr>input_line := j, totals := (totals s)(cat \<mapsto> tt),
                    output_file := output_file s @ [txf_item n it],
                    history := history s @ [(cat, it)]\<rparr>" by blast
    from s' have "history s' = history s @ [(cat, it)]" by simp
    moreover have "Q (cat, it)" using len c r by (rule assms(2))
    ultimately show ?thesis using inv by simp
  qed
qed

lemma upper_cusip: "c \<in> set (map snd CUSIPS) \<Longrightarrow> map upper_char c = c"
proof -
  have a: "map upper_char ''02079K305'' = ''02079K305''" by code_simp
  have b: "map upper_char ''02079K107'' = ''02079K107''" by code_simp
  assume "c \<in> set (map snd CUSIPS)"
  then have "c = ''02079K305'' \<or> c = ''02079K107''" by (simp add: CUSIPS_def)
  with a b show ?thesis by auto
qed

lemma read_item_fields:
  assumes "read_item ls i = Inr (it, j)"
  shows "l_cusip it = map upper_char (ls ! i) \<and> box1a_description it = ls ! (i + 1) \<and>
         map_of CUSIPS (l_symbol it) = Some (l_cusip it) \<and>
         (\<exists>m. (re_match combined_rx (ls ! (i + 1)) = Some m \<or>
               re_match combined_rx (ls ! (i + 1)) = None \<and>
               re_match line2_rx (ls ! (i + 1)) = Some m) \<and>
              group m 1 = Some (l_symbol it))"
  using assms unfolding read_item_def Let_def check_pair_def
  by (auto split: if_splits option.splits sum.splits)

definition unknown_identifier :: "string list" where
  "unknown_identifier =
     [''0207XYZ'', ''2 SHARES OF GOOG'', ''01/27/2020 2,933.94 2,933.42 X'',
      ''02/06/2020 GROSS'']"

text \<open>
  Claim C4, as amended.  In the checkbox-driven converter every accepted record starts at a
  line that is exactly a registered CUSIP, and the symbol captured from the description
  line that follows is the registry key of that CUSIP; a line that is neither a marker nor
  a registered CUSIP is passed over without starting a record.  The tokenizing converter
  takes any line that begins with \<^verbatim>\<open>3825\<close> or \<^verbatim>\<open>0207\<close> as the identifier, requires
  the symbol to be \<^verbatim>\<open>GOOG\<close> or \<^verbatim>\<open>GOOGL\<close>, and does not compare the two.
\<close>

theorem identifier_checks:
  "(\<forall>e \<in> set (history (snd (snd (convert argv t ls)))).
      \<exists>i<length ls. ls ! i \<in> set (map snd CUSIPS) \<and> l_cusip (snd e) = ls ! i \<and>
        box1a_description (snd e) = ls ! (i + 1) \<and>
        map_of CUSIPS (l_symbol (snd e)) = Some (ls ! i) \<and>
        (\<exists>m. (re_match combined_rx (ls ! (i + 1)) = Some m \<or>
              re_match combined_rx (ls ! (i + 1)) = None \<and>
              re_match line2_rx (ls ! (i + 1)) = Some m) \<and>
             group m 1 = Some (l_symbol (snd e)))) \<and>
   (\<forall>s :: conv_state. re_search box_rx (ls ! input_line s) = None \<longrightarrow>
        ls ! input_line s \<notin> set (map snd CUSIPS) \<longrightarrow>
        convert_step ls s = Inr (s\<lparr>input_line := input_line s + 1\<rparr>)) \<and>
   (\<forall>ps. parse1099Form lib raw_lines = Inr ps \<longrightarrow>
      (\<forall>r \<in> set (records ps).
         (startswith (cusip r) ''3825'' \<or> startswith (cusip r) ''0207'') \<and>
         (symbol r = ''GOOG'' \<or> symbol r = ''GOOGL'')))"
proof (intro conjI allI impI)
  let ?Q = "\<lambda>e :: string \<times> item.
      \<exists>i<length ls. ls ! i \<in> set (map snd CUSIPS) \<and> l_cusip (snd e) = ls ! i \<and>
        box1a_description (snd e) = ls ! (i + 1) \<and>
        map_of CUSIPS (l_symbol (snd e)) = Some (ls ! i) \<and>
        (\<exists>m. (re_match combined_rx (ls ! (i + 1)) = Some m \<or>
              re_match combined_rx (ls ! (i + 1)) = None \<and>
              re_match line2_rx (ls ! (i + 1)) = Some m) \<and>
             group m 1 = Some (l_symbol (snd e)))"
  obtain err st where l: "convert_loop ls (initial_state t) = (err, st)"
    by (cases "convert_loop ls (initial_state t)")
  have "\<forall>e \<in> set (history st). ?Q e"
  proof (rule convert_history_all [OF l])
    fix i cat it j
    assume i: "i < length ls" and c: "ls ! i \<in> set (map snd CUSIPS)"
      and r: "read_item ls i = Inr (it, j)"
    from read_item_fields [OF r] upper_cusip [OF c] i c
    show "?Q (cat, it)" by auto
  qed
  then have H: "\<forall>e \<in> set (history st). ?Q e" .
  show "\<forall>e \<in> set (history (snd (snd (convert argv t ls)))). ?Q e"
  proof (cases "length argv = 3")
    case True
    with l have "history (snd (snd (convert argv t ls))) = history st"
      by (simp add: convert_def)
    with H show ?thesis by (simp only:)
  next
    case False
    then have "history (snd (snd (convert argv t ls))) = []"
      by (simp add: convert_def initial_state_def)
    then show ?thesis by (simp only: list.set ball_empty)
  qed
next
  fix s :: conv_state
  assume "re_search box_rx (ls ! input_line s) = None"
    "ls ! input_line s \<notin> set (map snd CUSIPS)"
  then show "convert_step ls s = Inr (s\<lparr>input_line := input_line s + 1\<rparr>)"
    by (simp add: convert_step_def)
next
  fix ps
  assume p: "parse1099Form lib raw_lines = Inr ps"
  show "\<forall>r \<in> set (records ps).
         (startswith (cusip r) ''3825'' \<or> startswith (cusip r) ''0207'') \<and>
         (symbol r = ''GOOG'' \<or> symbol r = ''GOOGL'')"
  proof (rule parse_records_all [OF p])
    fix c tk tk0 raw tk' r
    assume f: "find_cusip tk0 = (Some c, tk)" and rt: "read_tokens lib tk = Inr (raw, tk')"
      and b: "build_record c raw = Inr r"
    from find_cusip_prefix [OF f] read_tokens_checked [OF rt] build_record_fields [OF b]
    show "(startswith (cusip r) ''3825'' \<or> startswith (cusip r) ''0207'') \<and>
         (symbol r = ''GOOG'' \<or> symbol r = ''GOOGL'')" by auto
  qed
qed

text \<open>Claim C4 as stated fails on the tokenizing converter: the identifier below is in no
  registry, and the record after it is accepted.\<close>

theorem unregistered_identifier_counterexample:
  "(case parse1099Form plain_lib unknown_identifier of
      Inl e \<Rightarrow> False
    | Inr ps \<Rightarrow> map cusip (records ps) = [''0207XYZ''] \<and> map symbol (records ps) = [''GOOG'']) \<and>
   ''0207XYZ'' \<notin> set (map snd CUSIPS) \<and>
   fst (taxform_main plain_lib sample_argv unknown_identifier) = None"
  by code_simp


theorem identifier_checks_witness:
  "history (snd (snd (convert conv_argv ''04/15/2021'' two_boxes))) \<noteq> [] \<and>
   (\<exists>i<length two_boxes. two_boxes ! i \<in> set (map snd CUSIPS) \<and>
      l_cusip (snd (hd (history (snd (snd (convert conv_argv ''04/15/2021'' two_boxes)))))) =
        two_boxes ! i \<and>
      map_of CUSIPS
        (l_symbol (snd (hd (history (snd (snd (convert conv_argv ''04/15/2021'' two_boxes)))))))
        = Some (two_boxes ! i)) \<and>
   (\<exists>ps. parse1099Form plain_lib three_sales = Inr ps \<and> records ps \<noteq> [] \<and>
      (startswith (cusip (hd (records ps))) ''3825'' \<or>
       startswith (cusip (hd (records ps))) ''0207'') \<and>
      (symbol (hd (records ps)) = ''GOOG'' \<or> symbol (hd (records ps)) = ''GOOGL''))"
proof -
  let ?H = "history (snd (snd (convert conv_argv ''04/15/2021'' two_boxes)))"
  note inst = identifier_checks [of conv_argv "''04/15/2021''" two_boxes plain_lib three_sales]
  have ne: "?H \<noteq> []" by code_simp
  then have "hd ?H \<in> set ?H" by simp
  with inst have a: "\<exists>i<length two_boxes. two_boxes ! i \<in> set (map snd CUSIPS) \<and>
      l_cusip (snd (hd ?H)) = two_boxes ! i \<and>
      map_of CUSIPS (l_symbol (snd (hd ?H))) = Some (two_boxes ! i)"
    by blast
  have "case parse1099Form plain_lib three_sales of Inl e \<Rightarrow> False | Inr ps \<Rightarrow> records ps \<noteq> []"
    by code_simp
  then obtain ps where p: "parse1099Form plain_lib three_sales = Inr ps" and r: "records ps \<noteq> []"
    by (auto split: sum.splits)
  from r have "hd (records ps) \<in> set (records ps)" by simp
  with inst p have "(startswith (cusip (hd (records ps))) ''3825'' \<or>
       startswith (cusip (hd (records ps))) ''0207'') \<and>
      (symbol (hd (records ps)) = ''GOOG'' \<or> symbol (hd (records ps)) = ''GOOGL'')"
    by blast
  with ne a p r show ?thesis by blast
qed

section \<open>How the tokenizing converter resolves the optional wash amounts\<close>



























section \<open>Quantities that are not positive\<close>

subsection \<open>Where a run stands after some of its records\<close>

text \<open>\<open>after_records lib n ps\<close> is the state of \<^verbatim>\<open>parse1099Form\<close>'s loop \<open>n\<close> accepted
  records after \<open>ps\<close> (\<open>None\<close> when the loop ends or raises before that), and
  \<open>conv_after ls n s\<close> the state of the checkbox-driven loop \<open>n\<close> passes after \<open>s\<close>.\<close>

fun after_records :: "'f pylib \<Rightarrow> nat \<Rightarrow> 'f parse_state \<Rightarrow> 'f parse_state option" where
  "after_records lib 0 ps = Some ps"
| "after_records lib (Suc n) ps =
     (case find_cusip (tokenizer ps) of
        (None, tk) \<Rightarrow> None
      | (Some c, tk) \<Rightarrow>
          if c = [] then None
          else (case parse_record lib ps c tk of
                  Inl e \<Rightarrow> None
                | Inr ps' \<Rightarrow> after_records lib n ps'))"

fun conv_after :: "string list \<Rightarrow> nat \<Rightarrow> conv_state \<Rightarrow> conv_state option" where
  "conv_after ls 0 s = Some s"
| "conv_after ls (Suc n) s =
     (if input_line s < length ls then
        (case convert_step ls s of
           Inl e \<Rightarrow> None
         | Inr s' \<Rightarrow> conv_after ls n s')
      else None)"

lemma parse_loop_after:
  "after_records lib n ps0 = Some ps \<Longrightarrow> parse_loop lib ps0 = parse_loop lib ps"
proof (induction n arbitrary: ps0)
  case 0
  then show ?case by simp
next
  case (Suc n)
  obtain x tk where f: "find_cusip (tokenizer ps0) = (x, tk)"
    by (cases "find_cusip (tokenizer ps0)")
  from Suc.prems f obtain c ps' where c: "x = Some c" "c \<noteq> []"
    and p: "parse_record lib ps0 c tk = Inr ps'" and a: "after_records lib n ps' = Some ps"
    by (auto split: option.splits if_splits sum.splits)
  from f c p have "parse_loop lib ps0 = parse_loop lib ps'"
    by (simp add: parse_loop.simps [of lib ps0])
  with Suc.IH [OF a] show ?case by simp
qed

lemma convert_loop_after:
  "conv_after ls n s0 = Some s \<Longrightarrow> convert_loop ls s0 = convert_loop ls s"
proof (induction n arbitrary: s0)
  case 0
  then show ?case by simp
next
  case (Suc n)
  from Suc.prems obtain s' where l: "input_line s0 < length ls"
    and st: "convert_step ls s0 = Inr s'" and a: "conv_after ls n s' = Some s"
    by (auto split: if_splits sum.splits)
  from l st have "convert_loop ls s0 = convert_loop ls s'"
    by (simp add: convert_loop.simps [of ls s0])
  with Suc.IH [OF a] show ?case by simp
qed

lemma read_tokens_nonpositive_error:
  assumes "fst (next_token tk) = Some ns" and "float_of_str lib ns = Some q"
    and "float_le_zero lib q"
  shows "\<exists>n s. read_tokens lib tk = Inl (ParseException n s)"
  using assms unfolding read_tokens_def Let_def generate_parsing_error_def
  by (auto split: prod.splits)

lemma parse_loop_aborts:
  assumes "find_cusip (tokenizer ps) = (Some c, tk)" and "read_tokens lib tk = Inl e"
  shows "parse_loop lib ps = Inl e"
proof -
  from find_cusip_prefix [OF assms(1)] have "c \<noteq> []" by (auto simp: startswith_def)
  with assms show ?thesis by (simp add: parse_loop.simps [of lib ps] parse_record_def)
qed

lemma convert_loop_aborts:
  assumes "input_line s < length ls" and "convert_step ls s = Inl e"
  shows "convert_loop ls s = (Some e, s)"
  using assms by (simp add: convert_loop.simps [of ls s])


lemma shares_needs_digit:
  "\<not> (\<exists>c rest. l = c # rest \<and> c \<in> set digits) \<Longrightarrow> rx_run shares_of_rx (g, l) = []"
  by (cases l) (auto simp: shares_of_rx_def seqs_def)

lemma description_starts_with_digit:
  assumes "re_match combined_rx l = Some m \<or> re_match line2_rx l = Some m"
  shows "\<exists>c rest. l = c # rest \<and> c \<in> set digits"
proof (rule ccontr)
  assume "\<not> (\<exists>c rest. l = c # rest \<and> c \<in> set digits)"
  then have "rx_run shares_of_rx ([], l) = []" by (rule shares_needs_digit)
  then have "re_match combined_rx l = None" "re_match line2_rx l = None"
    by (simp_all add: re_match_def combined_rx_def line2_rx_def seqs_def)
  with assms show False by simp
qed

lemma convert_aborts_at:
  assumes "length argv = 3" and "conv_after ls n (initial_state t) = Some s"
    and "input_line s < length ls" and "convert_step ls s = Inl e"
  shows "convert argv t ls = (Some e, Some (file_text (output_file s)), s)"
proof -
  from convert_loop_after [OF assms(2)] convert_loop_aborts [OF assms(3,4)]
  have "convert_loop ls (initial_state t) = (Some e, s)" by simp
  with assms(1) show ?thesis by (simp add: convert_def)
qed

lemma convert_step_minus:
  assumes "input_line s + 1 < length ls" and "ls ! input_line s \<in> set (map snd CUSIPS)"
    and "ls ! (input_line s + 1) = CHR ''-'' # rest"
  shows "convert_step ls s =
           Inl (if txf_category s = None then NoCheckbox
                else if length ls < input_line s + 3 then InsufficientContent
                else LineError (input_line s + 2) (ls ! (input_line s + 1)))"
proof -
  from assms(2) have b: "re_search box_rx (ls ! input_line s) = None" by (rule cusip_not_box)
  show ?thesis
  proof (cases "txf_category s")
    case None
    with b assms(2) show ?thesis by (simp add: convert_step_def)
  next
    case (Some cat)
    show ?thesis
    proof (cases "length ls < input_line s + 3")
      case True
      with Some b assms(2) show ?thesis by (simp add: convert_step_def read_item_def)
    next
      case False
      then have "input_line s + 3 \<le> length ls" by simp
      from read_item_rejects_minus [OF this assms(3)] Some b assms(2) False
      show ?thesis by (simp add: convert_step_def)
    qed
  qed
qed


definition sale_then_zero_shares :: "string list" where
  "sale_then_zero_shares = one_sale @ zero_shares"

definition minus_shares_box :: "string list" where
  "minus_shares_box =
     [''Box B checked'',
      ''02079K107'', ''3 SHARES OF GOOG'', ''07/25/2019 4,498.54 3,413.43 1,100.22 X'',
      ''08/06/2020 GROSS'',
      ''02079K107'', ''-2 SHARES OF GOOG'', ''01/27/2020 2,933.94 2,933.42 X'',
      ''02/06/2020 GROSS'']"

text \<open>
  Claim C3, as amended.  In the tokenizing converter no parsed record has a quantity that is
  \<^verbatim>\<open><= 0\<close>, and the run aborts at the first such quantity: when, after any number of
  accepted records, the token that follows the next identifier line converts to a number
  \<^verbatim>\<open><= 0\<close>, reading the record raises the parsing exception, \<^verbatim>\<open>parse1099Form\<close> ends
  with that exception, and the script ends with an exception and without an output file.
  The checkbox-driven converter never reads the quantity as a number.  Every record it
  accepts has a description line that begins with a digit; when, after any number of
  passes of its loop, a registered identifier line is followed by a description line that
  begins with a minus sign, the run ends there with an error, nothing more is written to the
  output file, and no record is added.  A quantity of zero, however, is accepted by it.
\<close>

theorem nonpositive_quantity:
  "(\<forall>ps. parse1099Form lib raw_lines = Inr ps \<longrightarrow>
      (\<forall>r \<in> set (records ps). \<not> float_le_zero lib (quantity r))) \<and>
   (\<forall>tk ns q. fst (next_token tk) = Some ns \<longrightarrow> float_of_str lib ns = Some q \<longrightarrow>
      float_le_zero lib q \<longrightarrow>
      (\<exists>k s. read_tokens lib tk = Inl (ParseException k s) \<and>
         (\<forall>ps c. parse_record lib ps c tk = Inl (ParseException k s)))) \<and>
   (\<forall>n ps c tk ns q.
      after_records lib n (parse_start raw_lines) = Some ps \<longrightarrow>
      find_cusip (tokenizer ps) = (Some c, tk) \<longrightarrow>
      fst (next_token tk) = Some ns \<longrightarrow> float_of_str lib ns = Some q \<longrightarrow>
      float_le_zero lib q \<longrightarrow>
      (\<exists>k s. read_tokens lib tk = Inl (ParseException k s) \<and>
         parse1099Form lib raw_lines = Inl (ParseException k s) \<and>
         taxform_main lib argv raw_lines =
           (Some (if length argv < 3 then IndexError else ParseException k s), None))) \<and>
   (\<forall>e \<in> set (history (snd (snd (convert cargv t ls)))).
      \<exists>c rest. box1a_description (snd e) = c # rest \<and> c \<in> set digits) \<and>
   (\<forall>i rest. i + 3 \<le> length ls \<longrightarrow> ls ! (i + 1) = CHR ''-'' # rest \<longrightarrow>
      read_item ls i = Inl (LineError (i + 2) (ls ! (i + 1)))) \<and>
   (\<forall>n s rest.
      length cargv = 3 \<longrightarrow> conv_after ls n (initial_state t) = Some s \<longrightarrow>
      input_line s + 1 < length ls \<longrightarrow> ls ! input_line s \<in> set (map snd CUSIPS) \<longrightarrow>
      ls ! (input_line s + 1) = CHR ''-'' # rest \<longrightarrow>
      convert cargv t ls =
        (Some (if txf_category s = None then NoCheckbox
               else if length ls < input_line s + 3 then InsufficientContent
               else LineError (input_line s + 2) (ls ! (input_line s + 1))),
         Some (file_text (output_file s)), s))"
proof (intro conjI allI impI)
  fix ps
  assume p: "parse1099Form lib raw_lines = Inr ps"
  show "\<forall>r \<in> set (records ps). \<not> float_le_zero lib (quantity r)"
  proof (rule parse_records_all [OF p])
    fix c tk tk0 raw tk' r
    assume "read_tokens lib tk = Inr (raw, tk')" "build_record c raw = Inr r"
    with read_tokens_checked build_record_fields
    show "\<not> float_le_zero lib (quantity r)" by metis
  qed
next
  fix tk ns q
  assume a: "fst (next_token tk) = Some ns" "float_of_str lib ns = Some q" "float_le_zero lib q"
  from read_tokens_nonpositive_error [OF a] obtain k s where
    e: "read_tokens lib tk = Inl (ParseException k s)" by blast
  then have "\<forall>(ps :: 'a parse_state) c. parse_record lib ps c tk = Inl (ParseException k s)"
    by (simp add: parse_record_def)
  with e show "\<exists>k s. read_tokens lib tk = Inl (ParseException k s) \<and>
         (\<forall>(ps :: 'a parse_state) c. parse_record lib ps c tk = Inl (ParseException k s))"
    by blast
next
  fix n and ps :: "'a parse_state" and c tk ns q
  assume r: "after_records lib n (parse_start raw_lines) = Some ps"
    and f: "find_cusip (tokenizer ps) = (Some c, tk)"
    and a: "fst (next_token tk) = Some ns" "float_of_str lib ns = Some q" "float_le_zero lib q"
  from read_tokens_nonpositive_error [OF a] obtain k s where
    e: "read_tokens lib tk = Inl (ParseException k s)" by blast
  from parse_loop_after [OF r] parse_loop_aborts [OF f e]
  have p: "parse1099Form lib raw_lines = Inl (ParseException k s)"
    by (simp add: parse1099Form_def)
  then have "taxform_main lib argv raw_lines =
           (Some (if length argv < 3 then IndexError else ParseException k s), None)"
    by (simp add: taxform_main_def)
  with e p show "\<exists>k s. read_tokens lib tk = Inl (ParseException k s) \<and>
         parse1099Form lib raw_lines = Inl (ParseException k s) \<and>
         taxform_main lib argv raw_lines =
           (Some (if length argv < 3 then IndexError else ParseException k s), None)"
    by blast
next
  let ?Q = "\<lambda>e :: string \<times> item. \<exists>c rest. box1a_description (snd e) = c # rest \<and> c \<in> set digits"
  obtain err st where l: "convert_loop ls (initial_state t) = (err, st)"
    by (cases "convert_loop ls (initial_state t)")
  have H: "\<forall>e \<in> set (history st). ?Q e"
  proof (rule convert_history_all [OF l])
    fix i cat it j
    assume r: "read_item ls i = Inr (it, j)"
    from read_item_fields [OF r] obtain m where
      d: "box1a_description it = ls ! (i + 1)" and
      m: "re_match combined_rx (ls ! (i + 1)) = Some m \<or> re_match line2_rx (ls ! (i + 1)) = Some m"
      by blast
    from description_starts_with_digit [OF m] d show "?Q (cat, it)" by simp
  qed
  show "\<forall>e \<in> set (history (snd (snd (convert cargv t ls)))). ?Q e"
  proof (cases "length cargv = 3")
    case True
    with l have "history (snd (snd (convert cargv t ls))) = history st"
      by (simp add: convert_def)
    with H show ?thesis by (simp only:)
  next
    case False
    then have "history (snd (snd (convert cargv t ls))) = []"
      by (simp add: convert_def initial_state_def)
    then show ?thesis by (simp only: list.set ball_empty)
  qed
next
  fix i rest
  assume "i + 3 \<le> length ls" "ls ! (i + 1) = CHR ''-'' # rest"
  then show "read_item ls i = Inl (LineError (i + 2) (ls ! (i + 1)))"
    by (rule read_item_rejects_minus)
next
  fix n s rest
  assume a: "length cargv = 3" and r: "conv_after ls n (initial_state t) = Some s"
    and i: "input_line s + 1 < length ls" and c: "ls ! input_line s \<in> set (map snd CUSIPS)"
    and d: "ls ! (input_line s + 1) = CHR ''-'' # rest"
  from i have "input_line s < length ls" by simp
  from convert_aborts_at [OF a r this convert_step_minus [OF i c d]]
  show "convert cargv t ls =
        (Some (if txf_category s = None then NoCheckbox
               else if length ls < input_line s + 3 then InsufficientContent
               else LineError (input_line s + 2) (ls ! (input_line s + 1))),
         Some (file_text (output_file s)), s)" .
qed

theorem nonpositive_quantity_witness:
  "(\<exists>ps c tk. after_records plain_lib 1 (parse_start sale_then_zero_shares) = Some ps \<and>
      length (records ps) = 1 \<and>
      find_cusip (tokenizer ps) = (Some c, tk) \<and> fst (next_token tk) = Some ''0'') \<and>
   float_of_str plain_lib ''0'' = Some (Finite False 0 0) \<and>
   float_le_zero plain_lib (Finite False 0 0) \<and>
   parse1099Form plain_lib sale_then_zero_shares = Inl (ParseException 6 ''0 SHARES OF GOOG'') \<and>
   taxform_main plain_lib sample_argv sale_then_zero_shares =
     (Some (ParseException 6 ''0 SHARES OF GOOG''), None) \<and>
   length conv_argv = 3 \<and>
   (\<exists>s. conv_after minus_shares_box 2 (initial_state ''04/15/2021'') = Some s \<and>
      input_line s = 5 \<and> txf_category s = Some ''B'' \<and> length (history s) = 1) \<and>
   minus_shares_box ! 5 \<in> set (map snd CUSIPS) \<and>
   minus_shares_box ! 6 = ''-2 SHARES OF GOOG'' \<and>
   fst (convert conv_argv ''04/15/2021'' minus_shares_box) =
     Some (LineError 7 ''-2 SHARES OF GOOG'') \<and>
   fst (snd (convert conv_argv ''04/15/2021'' minus_shares_box)) =
     Some (unlines [''V042'', ''ASelf'', ''D04/15/2021'', ''^'',
                    ''TD'', ''N711'', ''P3 SHARES OF GOOG'', ''D07/25/2019'', ''D08/06/2020'',
                    ''$3,413.43'', ''$4,498.54'', ''$1,100.22'', ''^'']) \<and>
   length (history (snd (snd (convert conv_argv ''04/15/2021'' minus_shares_box)))) = 1"
proof -
  let ?L = "sale_then_zero_shares"
  let ?M = "minus_shares_box"
  let ?t = "''04/15/2021''"
  note inst = nonpositive_quantity [of plain_lib ?L sample_argv conv_argv ?t ?M]
  have "case after_records plain_lib 1 (parse_start ?L) of
          None \<Rightarrow> False
        | Some ps \<Rightarrow> length (records ps) = 1 \<and>
            (case find_cusip (tokenizer ps) of
               (Some c, tk) \<Rightarrow> fst (next_token tk) = Some ''0''
             | (None, tk) \<Rightarrow> False)"
    by code_simp
  then obtain ps :: "decimal parse_state" and c tk where
    r: "after_records plain_lib 1 (parse_start ?L) = Some ps" and n: "length (records ps) = 1"
    and f: "find_cusip (tokenizer ps) = (Some c, tk)" and a: "fst (next_token tk) = Some ''0''"
    by (auto split: option.splits prod.splits)
  have b: "float_of_str plain_lib ''0'' = Some (Finite False 0 0)" by code_simp
  have z: "float_le_zero plain_lib (Finite False 0 0)" by code_simp
  from inst have "\<forall>n (ps :: decimal parse_state) c tk ns q.
      after_records plain_lib n (parse_start ?L) = Some ps \<longrightarrow>
      find_cusip (tokenizer ps) = (Some c, tk) \<longrightarrow>
      fst (next_token tk) = Some ns \<longrightarrow> float_of_str plain_lib ns = Some q \<longrightarrow>
      float_le_zero plain_lib q \<longrightarrow>
      (\<exists>k s. read_tokens plain_lib tk = Inl (ParseException k s) \<and>
         parse1099Form plain_lib ?L = Inl (ParseException k s) \<and>
         taxform_main plain_lib sample_argv ?L =
           (Some (if length sample_argv < 3 then IndexError else ParseException k s), None))"
    by (elim conjE)
  with r f a b z have "\<exists>k s. read_tokens plain_lib tk = Inl (ParseException k s) \<and>
         parse1099Form plain_lib ?L = Inl (ParseException k s) \<and>
         taxform_main plain_lib sample_argv ?L =
           (Some (if length sample_argv < 3 then IndexError else ParseException k s), None)"
    by blast
  then obtain k s where
    p: "parse1099Form plain_lib ?L = Inl (ParseException k s)" and
    m: "taxform_main plain_lib sample_argv ?L =
          (Some (if length sample_argv < 3 then IndexError else ParseException k s), None)"
    by blast
  have "fst (taxform_main plain_lib sample_argv ?L) = Some (ParseException 6 ''0 SHARES OF GOOG'')"
    by code_simp
  with m have ks: "ParseException k s = ParseException 6 ''0 SHARES OF GOOG''"
    by (simp add: sample_argv_def)
  have la: "length conv_argv = 3" by (simp add: conv_argv_def)
  have "case conv_after ?M 2 (initial_state ?t) of
          None \<Rightarrow> False
        | Some s \<Rightarrow> input_line s = 5 \<and> txf_category s = Some ''B'' \<and> length (history s) = 1 \<and>
            file_text (output_file s) =
              unlines [''V042'', ''ASelf'', ''D04/15/2021'', ''^'',
                    ''TD'', ''N711'', ''P3 SHARES OF GOOG'', ''D07/25/2019'', ''D08/06/2020'',
                    ''$3,413.43'', ''$4,498.54'', ''$1,100.22'', ''^'']"
    by code_simp
  then obtain st where
    cr: "conv_after ?M 2 (initial_state ?t) = Some st" and il: "input_line st = 5"
    and cat: "txf_category st = Some ''B''" and h: "length (history st) = 1"
    and ft: "file_text (output_file st) =
              unlines [''V042'', ''ASelf'', ''D04/15/2021'', ''^'',
                    ''TD'', ''N711'', ''P3 SHARES OF GOOG'', ''D07/25/2019'', ''D08/06/2020'',
                    ''$3,413.43'', ''$4,498.54'', ''$1,100.22'', ''^'']"
    by (auto split: option.splits)
  have c5: "?M ! 5 \<in> set (map snd CUSIPS)" by (simp add: minus_shares_box_def CUSIPS_def)
  have d6: "?M ! 6 = ''-2 SHARES OF GOOG''" by (simp add: minus_shares_box_def)
  have len: "length ?M = 9" by (simp add: minus_shares_box_def)
  from il len have i1: "input_line st + 1 < length ?M" by simp
  from il c5 have c5': "?M ! input_line st \<in> set (map snd CUSIPS)" by simp
  from il d6 have d6': "?M ! (input_line st + 1) = CHR ''-'' # ''2 SHARES OF GOOG''" by simp
  from inst have "\<forall>n s rest.
      length conv_argv = 3 \<longrightarrow> conv_after ?M n (initial_state ?t) = Some s \<longrightarrow>
      input_line s + 1 < length ?M \<longrightarrow> ?M ! input_line s \<in> set (map snd CUSIPS) \<longrightarrow>
      ?M ! (input_line s + 1) = CHR ''-'' # rest \<longrightarrow>
      convert conv_argv ?t ?M =
        (Some (if txf_category s = None then NoCheckbox
               else if length ?M < input_line s + 3 then InsufficientContent
               else LineError (input_line s + 2) (?M ! (input_line s + 1))),
         Some (file_text (output_file s)), s)"
    by (elim conjE)
  with la cr i1 c5' d6'
  have "convert conv_argv ?t ?M =
        (Some (if txf_category st = None then NoCheckbox
               else if length ?M < input_line st + 3 then InsufficientContent
               else LineError (input_line st + 2) (?M ! (input_line st + 1))),
         Some (file_text (output_file st)), st)"
    by blast
  with il cat len d6 have cv: "convert conv_argv ?t ?M =
        (Some (LineError 7 ''-2 SHARES OF GOOG''), Some (file_text (output_file st)), st)"
    by simp
  from r n f a b z p m ks la cr il cat h ft c5 d6 cv show ?thesis
    by (simp add: sample_argv_def)
qed

section \<open>The blocks of the checkbox-driven converter and the lines they come from\<close>

subsection \<open>The characters a pattern can read\<close>

fun rx_chars :: "rx \<Rightarrow> char list" where
  "rx_chars Eps = []"
| "rx_chars (Lit c) = [c]"
| "rx_chars (Cls cs) = cs"
| "rx_chars (PlusCls cs) = cs"
| "rx_chars (Seq a b) = rx_chars a @ rx_chars b"
| "rx_chars (Alt a b) = rx_chars a @ rx_chars b"
| "rx_chars (Opt a) = rx_chars a"
| "rx_chars (Grp n a) = rx_chars a"
| "rx_chars Eos = []"

lemma take_takeWhile:
  "k \<le> length (takeWhile P s) \<Longrightarrow> set (take k s) \<subseteq> {x. P x}"
proof -
  assume "k \<le> length (takeWhile P s)"
  then have "take k s = take k (takeWhile P s)"
    by (metis takeWhile_eq_take take_take min.absorb1 min.commute)
  moreover have "set (take k (takeWhile P s)) \<subseteq> set (takeWhile P s)" by (rule set_take_subset)
  moreover have "set (takeWhile P s) \<subseteq> {x. P x}" by (auto dest: set_takeWhileD)
  ultimately show ?thesis by simp
qed

lemma rx_run_reads:
  "(g', s') \<in> set (rx_run r (g, s)) \<Longrightarrow> \<exists>pre. s = pre @ s' \<and> set pre \<subseteq> set (rx_chars r)"
proof (induction r arbitrary: g s g' s')
  case Eps
  then show ?case by simp
next
  case (Lit c)
  then show ?case by (cases s) (auto split: if_splits)
next
  case (Cls cs)
  then show ?case by (cases s) (auto split: if_splits)
next
  case (PlusCls cs)
  then have "\<exists>k. k \<le> length (takeWhile (\<lambda>x. x \<in> set cs) s) \<and> s' = drop k s"
    by (auto intro: less_imp_le)
  then obtain k where k: "k \<le> length (takeWhile (\<lambda>x. x \<in> set cs) s)" and s': "s' = drop k s"
    by blast
  from take_takeWhile [OF k] have "set (take k s) \<subseteq> set cs" by auto
  moreover have "s = take k s @ drop k s" by simp
  ultimately show ?case using s' by (metis rx_chars.simps(4))
next
  case (Seq a b)
  then obtain g1 s1 where a: "(g1, s1) \<in> set (rx_run a (g, s))"
    and b: "(g', s') \<in> set (rx_run b (g1, s1))" by auto
  from Seq.IH(1) [OF a] obtain p1 where p1: "s = p1 @ s1" "set p1 \<subseteq> set (rx_chars a)" by blast
  from Seq.IH(2) [OF b] obtain p2 where p2: "s1 = p2 @ s'" "set p2 \<subseteq> set (rx_chars b)" by blast
  from p1 p2 have "s = (p1 @ p2) @ s'" "set (p1 @ p2) \<subseteq> set (rx_chars (Seq a b))" by auto
  then show ?case by blast
next
  case (Alt a b)
  then have "(g', s') \<in> set (rx_run a (g, s)) \<or> (g', s') \<in> set (rx_run b (g, s))" by auto
  then show ?case
  proof
    assume "(g', s') \<in> set (rx_run a (g, s))"
    from Alt.IH(1) [OF this] show ?thesis by auto
  next
    assume "(g', s') \<in> set (rx_run b (g, s))"
    from Alt.IH(2) [OF this] show ?thesis by auto
  qed
next
  case (Opt a)
  then have "(g', s') \<in> set (rx_run a (g, s)) \<or> (g', s') = (g, s)" by auto
  then show ?case
  proof
    assume "(g', s') \<in> set (rx_run a (g, s))"
    from Opt.IH [OF this] show ?thesis by auto
  next
    assume "(g', s') = (g, s)"
    then show ?thesis by simp
  qed
next
  case (Grp n a)
  then obtain g1 where "(g1, s') \<in> set (rx_run a (g, s))" by auto
  from Grp.IH [OF this] show ?case by auto
next
  case Eos
  then show ?case by (auto split: if_splits)
qed

lemma rx_run_to_end:
  "(g', s') \<in> set (rx_run (foldr Seq rs (Seq Eos Eps)) st) \<Longrightarrow> s' = [] \<or> s' = [nl]"
proof (induction rs arbitrary: st)
  case Nil
  then show ?case by (cases st) (auto split: if_splits)
next
  case (Cons a rs)
  then obtain st1 where "(g', s') \<in> set (rx_run (foldr Seq rs (Seq Eos Eps)) st1)" by auto
  from Cons.IH [OF this] show ?case .
qed

lemma seqs_snoc: "seqs (rs @ [Eos]) = foldr Seq rs (Seq Eos Eps)"
  by (simp add: seqs_def)

lemma re_match_in_run: "re_match r s = Some m \<Longrightarrow> m \<in> set (rx_run r ([], s))"
  by (auto simp: re_match_def split: list.splits)

lemma whole_line_chars:
  assumes "re_match (seqs (rs @ [Eos])) l = Some m"
  shows "set l \<subseteq> set (rx_chars (seqs (rs @ [Eos]))) \<union> {nl}"
proof -
  obtain g' s' where m: "m = (g', s')" by (cases m)
  from re_match_in_run [OF assms] m
  have r: "(g', s') \<in> set (rx_run (seqs (rs @ [Eos])) ([], l))" by simp
  from rx_run_reads [OF r] obtain pre where
    p: "l = pre @ s'" "set pre \<subseteq> set (rx_chars (seqs (rs @ [Eos])))" by blast
  from r have "s' = [] \<or> s' = [nl]" unfolding seqs_snoc by (rule rx_run_to_end)
  with p show ?thesis by auto
qed

text \<open>No pattern of a record reads a lower-case letter, and a marker has some.\<close>

lemma box_needs_o: "CHR ''o'' \<notin> set l \<Longrightarrow> re_search box_rx l = None"
proof (induction l)
  case Nil
  show ?case by code_simp
next
  case (Cons c cs)
  have "rx_run box_rx ([], c # cs) = []"
  proof (cases cs)
    case Nil
    then show ?thesis by (simp add: box_rx_def seqs_def lit_def)
  next
    case (Cons d ds)
    with Cons.prems have "d \<noteq> CHR ''o''" by auto
    with Cons show ?thesis by (simp add: box_rx_def seqs_def lit_def)
  qed
  then have "re_match box_rx (c # cs) = None" by (simp add: re_match_def)
  with Cons show ?case by simp
qed

lemma record_line_not_box:
  assumes "re_match combined_rx l = Some m \<or> re_match line2_rx l = Some m \<or>
           re_match line3_rx l = Some m \<or> re_match line4_rx l = Some m"
  shows "re_search box_rx l = None"
proof -
  have c: "combined_rx = seqs (butlast
     [shares_of_rx, Grp 1 (Seq (lit ''GOOG'') (Opt (Lit CHR ''L''))), Lit CHR '' '',
           Grp 2 date_rx, PlusCls whitespace, Grp 3 amount_rx, PlusCls whitespace, Grp 4 amount_rx,
           Opt (Seq (PlusCls whitespace) (Grp 5 amount_rx)), PlusCls whitespace, Lit CHR ''X'', Eos]
           @ [Eos])"
    by (simp add: combined_rx_def)
  have l2: "line2_rx = seqs (butlast
     [shares_of_rx, Grp 1 (Seq (lit ''GOOG'') (Opt (Lit CHR ''L''))), Eos] @ [Eos])"
    by (simp add: line2_rx_def)
  have l3: "line3_rx = seqs (butlast
     [Grp 1 date_rx, PlusCls whitespace, Grp 2 amount_rx, PlusCls whitespace, Grp 3 amount_rx,
           Opt (Seq (PlusCls whitespace) (Grp 4 amount_rx)), PlusCls whitespace, Lit CHR ''X'', Eos]
           @ [Eos])"
    by (simp add: line3_rx_def)
  have l4: "line4_rx = seqs (butlast [Grp 1 date_rx, Cls whitespace, lit ''GROSS'', Eos] @ [Eos])"
    by (simp add: line4_rx_def)
  have n: "CHR ''o'' \<notin> set (rx_chars combined_rx) \<union> {nl}"
     "CHR ''o'' \<notin> set (rx_chars line2_rx) \<union> {nl}"
     "CHR ''o'' \<notin> set (rx_chars line3_rx) \<union> {nl}"
     "CHR ''o'' \<notin> set (rx_chars line4_rx) \<union> {nl}"
    by code_simp+
  from assms have "\<exists>r \<in> {combined_rx, line2_rx, line3_rx, line4_rx}.
      set l \<subseteq> set (rx_chars r) \<union> {nl}"
  proof (elim disjE)
    assume "re_match combined_rx l = Some m"
    from whole_line_chars [OF this [unfolded c]] show ?thesis unfolding c [symmetric] by blast
  next
    assume "re_match line2_rx l = Some m"
    from whole_line_chars [OF this [unfolded l2]] show ?thesis unfolding l2 [symmetric] by blast
  next
    assume "re_match line3_rx l = Some m"
    from whole_line_chars [OF this [unfolded l3]] show ?thesis unfolding l3 [symmetric] by blast
  next
    assume "re_match line4_rx l = Some m"
    from whole_line_chars [OF this [unfolded l4]] show ?thesis unfolding l4 [symmetric] by blast
  qed
  with n have "CHR ''o'' \<notin> set l" by blast
  then show ?thesis by (rule box_needs_o)
qed


subsection \<open>The marker in force at a line\<close>

text \<open>\<open>marker_in_force ls\<close> is the category the marker lines among \<open>ls\<close> leave behind: the
  letter of the last line with a \<^verbatim>\<open>Box X checked\<close> marker, \<open>None\<close> when no line has one.\<close>

definition marker_in_force :: "string list \<Rightarrow> string option" where
  "marker_in_force ls =
     foldl (\<lambda>cat line. case re_search box_rx line of Some m \<Rightarrow> group m 1 | None \<Rightarrow> cat) None ls"

lemma marker_in_force_snoc:
  "marker_in_force (ls @ [l]) =
     (case re_search box_rx l of Some m \<Rightarrow> group m 1 | None \<Rightarrow> marker_in_force ls)"
  by (simp add: marker_in_force_def split: option.splits)

lemma marker_in_force_Suc:
  "i < length ls \<Longrightarrow>
   marker_in_force (take (Suc i) ls) =
     (case re_search box_rx (ls ! i) of Some m \<Rightarrow> group m 1
      | None \<Rightarrow> marker_in_force (take i ls))"
  by (simp add: take_Suc_conv_app_nth marker_in_force_snoc)

lemma marker_in_force_skip:
  "j \<le> length ls \<Longrightarrow> \<forall>k. i \<le> k \<and> k < i + d \<longrightarrow> re_search box_rx (ls ! k) = None \<Longrightarrow>
   j = i + d \<Longrightarrow> marker_in_force (take j ls) = marker_in_force (take i ls)"
proof (induction d arbitrary: j)
  case 0
  then show ?case by simp
next
  case (Suc d)
  from Suc.prems have l: "i + d < length ls" and n: "re_search box_rx (ls ! (i + d)) = None"
    by auto
  from Suc.prems have "marker_in_force (take (i + d) ls) = marker_in_force (take i ls)"
    by (intro Suc.IH) auto
  with marker_in_force_Suc [OF l] n Suc.prems(3) show ?case by simp
qed

subsection \<open>The lines of a record\<close>

lemma read_sale_line_matched:
  "read_sale_line ls k = Inr d \<Longrightarrow> k < length ls \<and> (\<exists>m. re_match line4_rx (ls ! k) = Some m)"
  by (auto simp: read_sale_line_def get_line_def split: if_splits option.splits)

lemma read_item_lines:
  assumes "read_item ls i = Inr (it, j)"
  shows "j \<le> length ls \<and> i < j \<and>
         (\<forall>k. i < k \<and> k < j \<longrightarrow>
            (\<exists>m. re_match combined_rx (ls ! k) = Some m \<or> re_match line2_rx (ls ! k) = Some m \<or>
                 re_match line3_rx (ls ! k) = Some m \<or> re_match line4_rx (ls ! k) = Some m))"
proof (cases "re_match combined_rx (ls ! (i + 1))")
  case (Some m)
  with assms obtain d where j: "j = i + 3" and d: "read_sale_line ls (i + 2) = Inr d"
    and len: "i + 3 \<le> length ls"
    by (auto simp: read_item_def Let_def split: if_splits option.splits sum.splits)
  from read_sale_line_matched [OF d] obtain m4 where
    m4: "re_match line4_rx (ls ! (i + 2)) = Some m4" by blast
  have "\<forall>k. i < k \<and> k < j \<longrightarrow>
            (\<exists>m. re_match combined_rx (ls ! k) = Some m \<or> re_match line2_rx (ls ! k) = Some m \<or>
                 re_match line3_rx (ls ! k) = Some m \<or> re_match line4_rx (ls ! k) = Some m)"
  proof (intro allI impI)
    fix k
    assume "i < k \<and> k < j"
    with j consider "k = i + 1" | "k = i + 2" by linarith
    then show "\<exists>m. re_match combined_rx (ls ! k) = Some m \<or>
        re_match line2_rx (ls ! k) = Some m \<or>
        re_match line3_rx (ls ! k) = Some m \<or> re_match line4_rx (ls ! k) = Some m"
    proof cases
      case 1
      with Some show ?thesis by blast
    next
      case 2
      with m4 show ?thesis by blast
    qed
  qed
  with j len show ?thesis by simp
next
  case None
  with assms obtain m2 m3 d where j: "j = i + 4"
    and m2: "re_match line2_rx (ls ! (i + 1)) = Some m2"
    and m3: "re_match line3_rx (ls ! (i + 2)) = Some m3"
    and d: "read_sale_line ls (i + 3) = Inr d"
    by (auto simp: read_item_def Let_def split: if_splits option.splits sum.splits)
  from read_sale_line_matched [OF d] obtain m4 where
    len: "i + 3 < length ls" and m4: "re_match line4_rx (ls ! (i + 3)) = Some m4" by blast
  have "\<forall>k. i < k \<and> k < j \<longrightarrow>
            (\<exists>m. re_match combined_rx (ls ! k) = Some m \<or> re_match line2_rx (ls ! k) = Some m \<or>
                 re_match line3_rx (ls ! k) = Some m \<or> re_match line4_rx (ls ! k) = Some m)"
  proof (intro allI impI)
    fix k
    assume "i < k \<and> k < j"
    with j consider "k = i + 1" | "k = i + 2" | "k = i + 3" by linarith
    then show "\<exists>m. re_match combined_rx (ls ! k) = Some m \<or>
        re_match line2_rx (ls ! k) = Some m \<or>
        re_match line3_rx (ls ! k) = Some m \<or> re_match line4_rx (ls ! k) = Some m"
    proof cases
      case 1
      with m2 show ?thesis by blast
    next
      case 2
      with m3 show ?thesis by blast
    next
      case 3
      with m4 show ?thesis by blast
    qed
  qed
  with j len show ?thesis by simp
qed

lemma read_item_no_marker:
  assumes "read_item ls i = Inr (it, j)" and "ls ! i \<in> set (map snd CUSIPS)"
  shows "j \<le> length ls \<and> i < j \<and> marker_in_force (take j ls) = marker_in_force (take i ls)"
proof -
  from read_item_lines [OF assms(1)] have j: "j \<le> length ls" "i < j" and
    m: "\<forall>k. i < k \<and> k < j \<longrightarrow>
            (\<exists>m. re_match combined_rx (ls ! k) = Some m \<or> re_match line2_rx (ls ! k) = Some m \<or>
                 re_match line3_rx (ls ! k) = Some m \<or> re_match line4_rx (ls ! k) = Some m)"
    by auto
  have "\<forall>k. i \<le> k \<and> k < i + (j - i) \<longrightarrow> re_search box_rx (ls ! k) = None"
  proof (intro allI impI)
    fix k
    assume k: "i \<le> k \<and> k < i + (j - i)"
    show "re_search box_rx (ls ! k) = None"
    proof (cases "k = i")
      case True
      with assms(2) show ?thesis by (simp add: cusip_not_box)
    next
      case False
      with k j have "i < k \<and> k < j" by auto
      with m obtain mm where "re_match combined_rx (ls ! k) = Some mm \<or>
        re_match line2_rx (ls ! k) = Some mm \<or>
        re_match line3_rx (ls ! k) = Some mm \<or> re_match line4_rx (ls ! k) = Some mm" by blast
      then show ?thesis by (rule record_line_not_box)
    qed
  qed
  from marker_in_force_skip [OF j(1) this] j show ?thesis by simp
qed

subsection \<open>Every block comes from a record of the input\<close>

text \<open>\<open>block_at ls i b\<close>: \<open>b\<close> is the block of the record that starts at line \<open>i\<close> of \<open>ls\<close>,
  under the marker in force there.\<close>

definition block_at :: "string list \<Rightarrow> nat \<Rightarrow> TxfRecord \<Rightarrow> bool" where
  "block_at ls i b =
     (i < length ls \<and> ls ! i \<in> set (map snd CUSIPS) \<and>
      (\<exists>cat n it j. marker_in_force (take i ls) = Some cat \<and>
         map_of TXF_CATEGORIES cat = Some n \<and> read_item ls i = Inr (it, j) \<and>
         b = txf_item n it))"

lemma convert_step_trichotomy:
  assumes "convert_step ls s = Inr s'"
  shows "(\<exists>m. re_search box_rx (ls ! input_line s) = Some m \<and>
              s' = s\<lparr>txf_category := group m 1, input_line := input_line s + 1\<rparr>) \<or>
         (re_search box_rx (ls ! input_line s) = None \<and>
          s' = s\<lparr>input_line := input_line s + 1\<rparr>) \<or>
         (\<exists>cat it j t n.
            txf_category s = Some cat \<and> ls ! input_line s \<in> set (map snd CUSIPS) \<and>
            read_item ls (input_line s) = Inr (it, j) \<and>
            map_of TXF_CATEGORIES cat = Some n \<and>
            s' = s\<lparr>input_line := j, totals := (totals s)(cat \<mapsto> t),
                    output_file := output_file s @ [txf_item n it],
                    history := history s @ [(cat, it)]\<rparr>)"
  using assms
  by (auto simp: convert_step_def emit_item_def Let_def
           split: option.splits if_splits sum.splits prod.splits)

lemma list_all2_snoc_sorted:
  assumes "sorted_wrt (<) (xs :: nat list)" and "\<forall>x \<in> set xs. x < i"
  shows "sorted_wrt (<) (xs @ [i])"
  using assms by (simp add: sorted_wrt_append)

lemma convert_blocks:
  assumes "convert_loop ls (initial_state t) = (err, st)"
  shows "\<exists>bs starts. output_file st = header t # bs \<and> sorted_wrt (<) starts \<and>
           list_all2 (block_at ls) starts bs"
proof -
  let ?P = "\<lambda>s. input_line s \<le> length ls \<and>
      txf_category s = marker_in_force (take (input_line s) ls) \<and>
      (\<exists>bs starts. output_file s = header t # bs \<and> sorted_wrt (<) starts \<and>
         (\<forall>i \<in> set starts. i < input_line s) \<and> list_all2 (block_at ls) starts bs)"
  have "?P st"
  proof (rule convert_loop_invariant [OF assms])
    show "?P (initial_state t)" by (simp add: initial_state_def marker_in_force_def)
  next
    fix s s'
    assume inv: "?P s" and len: "input_line s < length ls" and step: "convert_step ls s = Inr s'"
    from inv obtain bs starts where
      cat: "txf_category s = marker_in_force (take (input_line s) ls)" and
      out: "output_file s = header t # bs" and srt: "sorted_wrt (<) starts" and
      lt: "\<forall>i \<in> set starts. i < input_line s" and blk: "list_all2 (block_at ls) starts bs"
      by blast
    from convert_step_trichotomy [OF step] show "?P s'"
    proof (elim disjE exE conjE)
      fix m
      assume m: "re_search box_rx (ls ! input_line s) = Some m"
        and s': "s' = s\<lparr>txf_category := group m 1, input_line := input_line s + 1\<rparr>"
      from marker_in_force_Suc [OF len] m
      have "marker_in_force (take (input_line s + 1) ls) = group m 1" by simp
      moreover from lt have "\<forall>i \<in> set starts. i < input_line s + 1" by auto
      ultimately show "?P s'" using s' len out srt blk by auto
    next
      assume m: "re_search box_rx (ls ! input_line s) = None"
        and s': "s' = s\<lparr>input_line := input_line s + 1\<rparr>"
      from marker_in_force_Suc [OF len] m cat
      have "marker_in_force (take (input_line s + 1) ls) = txf_category s" by simp
      moreover from lt have "\<forall>i \<in> set starts. i < input_line s + 1" by auto
      ultimately show "?P s'" using s' len out srt blk by auto
    next
      fix c it j tt n
      assume c: "txf_category s = Some c" and cu: "ls ! input_line s \<in> set (map snd CUSIPS)"
        and r: "read_item ls (input_line s) = Inr (it, j)"
        and n: "map_of TXF_CATEGORIES c = Some n"
        and s': "s' = s\<lparr>input_line := j, totals := (totals s)(c \<mapsto> tt),
                    output_file := output_file s @ [txf_item n it],
                    history := history s @ [(c, it)]\<rparr>"
      from read_item_no_marker [OF r cu] have j: "j \<le> length ls" "input_line s < j"
        and mf: "marker_in_force (take j ls) = marker_in_force (take (input_line s) ls)"
        by auto
      from c cat cu r n len have b: "block_at ls (input_line s) (txf_item n it)"
        unfolding block_at_def by auto
      from blk b have blk': "list_all2 (block_at ls) (starts @ [input_line s]) (bs @ [txf_item n it])"
        by (simp add: list_all2_appendI)
      from srt lt have srt': "sorted_wrt (<) (starts @ [input_line s])"
        by (rule list_all2_snoc_sorted)
      from lt j have lt': "\<forall>i \<in> set (starts @ [input_line s]). i < j" by auto
      from out have out': "output_file s' = header t # (bs @ [txf_item n it])"
        using s' by simp
      from s' have "input_line s' = j" "txf_category s' = txf_category s" by simp_all
      with j mf cat out' srt' lt' blk' show "?P s'" by (auto simp del: set_append)
    qed
  qed
  then show ?thesis by blast
qed

lemma convert_file_blocks:
  assumes "length argv = 3"
  shows "\<exists>bs starts. fst (snd (convert argv t ls)) = Some (file_text (header t # bs)) \<and>
           sorted_wrt (<) starts \<and> list_all2 (block_at ls) starts bs"
proof -
  obtain err st where l: "convert_loop ls (initial_state t) = (err, st)"
    by (cases "convert_loop ls (initial_state t)")
  from convert_blocks [OF l] obtain bs starts where
    "output_file st = header t # bs" "sorted_wrt (<) starts" "list_all2 (block_at ls) starts bs"
    by blast
  with l assms show ?thesis by (auto simp: convert_def)
qed


lemma marker_in_force_last:
  "i \<le> length ls \<Longrightarrow> marker_in_force (take i ls) = Some cat \<Longrightarrow>
   \<exists>j<i. (\<exists>m. re_search box_rx (ls ! j) = Some m \<and> group m 1 = Some cat) \<and>
          (\<forall>k. j < k \<and> k < i \<longrightarrow> re_search box_rx (ls ! k) = None)"
proof (induction i)
  case 0
  then show ?case by (simp add: marker_in_force_def)
next
  case (Suc i)
  then have l: "i < length ls" by simp
  show ?case
  proof (cases "re_search box_rx (ls ! i)")
    case (Some m)
    with marker_in_force_Suc [OF l] Suc.prems(2) have "group m 1 = Some cat" by simp
    with Some have "(\<exists>m. re_search box_rx (ls ! i) = Some m \<and> group m 1 = Some cat) \<and>
          (\<forall>k. i < k \<and> k < Suc i \<longrightarrow> re_search box_rx (ls ! k) = None)" by auto
    then show ?thesis by blast
  next
    case None
    with marker_in_force_Suc [OF l] Suc.prems(2) have "marker_in_force (take i ls) = Some cat"
      by simp
    with Suc.IH l obtain j where j: "j < i"
      "\<exists>m. re_search box_rx (ls ! j) = Some m \<and> group m 1 = Some cat"
      "\<forall>k. j < k \<and> k < i \<longrightarrow> re_search box_rx (ls ! k) = None" by auto
    from j(3) None have "\<forall>k. j < k \<and> k < Suc i \<longrightarrow> re_search box_rx (ls ! k) = None"
      by (auto simp: less_Suc_eq)
    with j(1,2) show ?thesis by (meson less_SucI)
  qed
qed

lemma read_item_amounts:
  assumes "read_item ls i = Inr (it, j)"
  shows "\<exists>m. (re_match combined_rx (ls ! (i + 1)) = Some m \<and> l_wash it = group m 5 \<and>
               group m 3 = Some (l_proceeds it) \<and> group m 4 = Some (l_basis it)) \<or>
              (re_match combined_rx (ls ! (i + 1)) = None \<and>
               re_match line3_rx (ls ! (i + 2)) = Some m \<and> l_wash it = group m 4 \<and>
               group m 2 = Some (l_proceeds it) \<and> group m 3 = Some (l_basis it))"
proof (cases "re_match combined_rx (ls ! (i + 1))")
  case (Some m)
  with assms have "l_wash it = group m 5 \<and>
               group m 3 = Some (l_proceeds it) \<and> group m 4 = Some (l_basis it)"
    by (auto simp: read_item_def Let_def split: if_splits option.splits sum.splits)
  with Some show ?thesis by blast
next
  case None
  with assms obtain m where "re_match line3_rx (ls ! (i + 2)) = Some m \<and> l_wash it = group m 4 \<and>
               group m 2 = Some (l_proceeds it) \<and> group m 3 = Some (l_basis it)"
    by (auto simp: read_item_def Let_def split: if_splits option.splits sum.splits)
  with None show ?thesis by blast
qed

subsection \<open>The category refnumber and the marker lines\<close>

text \<open>
  Claim C6, as amended.  The checkbox-driven converter writes one block for each record
  it reads, in the order of the input; the block of the record that starts at line \<open>i\<close>
  carries after \<open>N\<close>, once and with nothing else, the value the fixed lookup gives for the
  letter of the last \<^verbatim>\<open>Box X checked\<close> marker line before line \<open>i\<close> (711 for box B, 713
  for box E).  The tokenizing converter has no classification: each of its blocks carries
  the fixed line \<^verbatim>\<open>N715\<close>.
\<close>

theorem refnumber_by_converter:
  "length argv = 3 \<Longrightarrow>
   (\<exists>bs starts. fst (snd (convert argv t ls)) = Some (file_text (header t # bs)) \<and>
      sorted_wrt (<) starts \<and>
      list_all2 (\<lambda>i b. i < length ls \<and> ls ! i \<in> set (map snd CUSIPS) \<and>
           (\<exists>cat n j. marker_in_force (take i ls) = Some cat \<and> j < i \<and>
              (\<exists>m. re_search box_rx (ls ! j) = Some m \<and> group m 1 = Some cat) \<and>
              (\<forall>k. j < k \<and> k < i \<longrightarrow> re_search box_rx (ls ! k) = None) \<and>
              map_of TXF_CATEGORIES cat = Some n \<and>
              ((cat = ''B'' \<and> n = 711) \<or> (cat = ''E'' \<and> n = 713)) \<and>
              [v. (op, v) \<leftarrow> b, op = ''N''] = [I n]))
        starts bs) \<and>
   (\<forall>rs. txf_records lib rs =
      unlines [''V042'', ''A quick and dirty TXF script'', ''D'' @ today lib, ''^'']
      @ concat (map (\<lambda>r. unlines (txf_record_lines lib r)) rs)) \<and>
   (\<forall>r. filter (\<lambda>l. startswith l ''N'') (txf_record_lines lib r) = [''N715''])"
proof -
  assume a: "length argv = 3"
  from convert_file_blocks [OF a, of t ls] obtain bs starts where
    f: "fst (snd (convert argv t ls)) = Some (file_text (header t # bs))" and
    s: "sorted_wrt (<) starts" and b: "list_all2 (block_at ls) starts bs" by blast
  have "list_all2 (\<lambda>i b. i < length ls \<and> ls ! i \<in> set (map snd CUSIPS) \<and>
           (\<exists>cat n j. marker_in_force (take i ls) = Some cat \<and> j < i \<and>
              (\<exists>m. re_search box_rx (ls ! j) = Some m \<and> group m 1 = Some cat) \<and>
              (\<forall>k. j < k \<and> k < i \<longrightarrow> re_search box_rx (ls ! k) = None) \<and>
              map_of TXF_CATEGORIES cat = Some n \<and>
              ((cat = ''B'' \<and> n = 711) \<or> (cat = ''E'' \<and> n = 713)) \<and>
              [v. (op, v) \<leftarrow> b, op = ''N''] = [I n]))
        starts bs"
    using b
  proof (rule list_all2_mono)
    fix i b
    assume "block_at ls i b"
    then obtain cat n it where i: "i < length ls" and c: "ls ! i \<in> set (map snd CUSIPS)"
      and m: "marker_in_force (take i ls) = Some cat" and n: "map_of TXF_CATEGORIES cat = Some n"
      and b: "b = txf_item n it"
      unfolding block_at_def by blast
    from i have "i \<le> length ls" by simp
    from marker_in_force_last [OF this m] obtain j where j: "j < i"
      "\<exists>m. re_search box_rx (ls ! j) = Some m \<and> group m 1 = Some cat"
      "\<forall>k. j < k \<and> k < i \<longrightarrow> re_search box_rx (ls ! k) = None" by blast
    from b have r: "[v. (op, v) \<leftarrow> b, op = ''N''] = [I n]" by (simp only: txf_item_refnum)
    from refnum_values [OF n] have v: "(cat = ''B'' \<and> n = 711) \<or> (cat = ''E'' \<and> n = 713)" .
    from i c m j n v r
    show "i < length ls \<and> ls ! i \<in> set (map snd CUSIPS) \<and>
           (\<exists>cat n j. marker_in_force (take i ls) = Some cat \<and> j < i \<and>
              (\<exists>m. re_search box_rx (ls ! j) = Some m \<and> group m 1 = Some cat) \<and>
              (\<forall>k. j < k \<and> k < i \<longrightarrow> re_search box_rx (ls ! k) = None) \<and>
              map_of TXF_CATEGORIES cat = Some n \<and>
              ((cat = ''B'' \<and> n = 711) \<or> (cat = ''E'' \<and> n = 713)) \<and>
              [v. (op, v) \<leftarrow> b, op = ''N''] = [I n])"
      by blast
  qed
  with f s txf_record_lines_N [of lib] show ?thesis unfolding txf_records_def by blast
qed

theorem refnumber_by_converter_witness:
  "length conv_argv = 3 \<and>
   (\<exists>bs starts. fst (snd (convert conv_argv ''04/15/2021'' two_boxes)) =
            Some (file_text (header ''04/15/2021'' # bs)) \<and>
      sorted_wrt (<) starts \<and>
      list_all2 (\<lambda>i b. i < length two_boxes \<and> two_boxes ! i \<in> set (map snd CUSIPS) \<and>
           (\<exists>cat n j. marker_in_force (take i two_boxes) = Some cat \<and> j < i \<and>
              (\<exists>m. re_search box_rx (two_boxes ! j) = Some m \<and> group m 1 = Some cat) \<and>
              (\<forall>k. j < k \<and> k < i \<longrightarrow> re_search box_rx (two_boxes ! k) = None) \<and>
              map_of TXF_CATEGORIES cat = Some n \<and>
              ((cat = ''B'' \<and> n = 711) \<or> (cat = ''E'' \<and> n = 713)) \<and>
              [v. (op, v) \<leftarrow> b, op = ''N''] = [I n]))
        starts bs) \<and>
   marker_in_force (take 1 two_boxes) = Some ''B'' \<and>
   marker_in_force (take 6 two_boxes) = Some ''E'' \<and>
   fst (snd (convert conv_argv ''04/15/2021'' two_boxes)) =
     Some (unlines [''V042'', ''ASelf'', ''D04/15/2021'', ''^'',
                    ''TD'', ''N711'', ''P3 SHARES OF GOOG'', ''D07/25/2019'', ''D08/06/2020'',
                    ''$3,413.43'', ''$4,498.54'', ''$1,100.22'', ''^'',
                    ''TD'', ''N713'', ''P1 SHARE OF GOOGL 08/25/2018 1,212.97 1,273.91 X'',
                    ''D08/25/2018'', ''D08/28/2020'', ''$1,273.91'', ''$1,212.97'', ''^''])"
proof -
  have l: "length conv_argv = 3" by (simp add: conv_argv_def)
  have m1: "marker_in_force (take 1 two_boxes) = Some ''B''" by code_simp
  have m6: "marker_in_force (take 6 two_boxes) = Some ''E''" by code_simp
  have f: "fst (snd (convert conv_argv ''04/15/2021'' two_boxes)) =
     Some (unlines [''V042'', ''ASelf'', ''D04/15/2021'', ''^'',
                    ''TD'', ''N711'', ''P3 SHARES OF GOOG'', ''D07/25/2019'', ''D08/06/2020'',
                    ''$3,413.43'', ''$4,498.54'', ''$1,100.22'', ''^'',
                    ''TD'', ''N713'', ''P1 SHARE OF GOOGL 08/25/2018 1,212.97 1,273.91 X'',
                    ''D08/25/2018'', ''D08/28/2020'', ''$1,273.91'', ''$1,212.97'', ''^''])"
    by code_simp
  from refnumber_by_converter [OF l, of "''04/15/2021''" two_boxes]
  have "\<exists>bs starts. fst (snd (convert conv_argv ''04/15/2021'' two_boxes)) =
            Some (file_text (header ''04/15/2021'' # bs)) \<and>
      sorted_wrt (<) starts \<and>
      list_all2 (\<lambda>i b. i < length two_boxes \<and> two_boxes ! i \<in> set (map snd CUSIPS) \<and>
           (\<exists>cat n j. marker_in_force (take i two_boxes) = Some cat \<and> j < i \<and>
              (\<exists>m. re_search box_rx (two_boxes ! j) = Some m \<and> group m 1 = Some cat) \<and>
              (\<forall>k. j < k \<and> k < i \<longrightarrow> re_search box_rx (two_boxes ! k) = None) \<and>
              map_of TXF_CATEGORIES cat = Some n \<and>
              ((cat = ''B'' \<and> n = 711) \<or> (cat = ''E'' \<and> n = 713)) \<and>
              [v. (op, v) \<leftarrow> b, op = ''N''] = [I n]))
        starts bs"
    by (rule conjunct1)
  with l m1 m6 f show ?thesis by (intro conjI)
qed

subsection \<open>The wash amount and the line it is read from\<close>

text \<open>
  Claim C2, as amended.  The checkbox-driven converter writes one block for each record it
  reads, in the order of the input.  The wash amount of the record that starts at line \<open>i\<close>
  is the optional group of the pattern that matched its amounts (group 5 of the pattern for
  a description line with the amounts on it, else group 4 of the pattern for the line after
  the description).  When that group took no part in the match, the block has exactly two
  \<^verbatim>\<open>$\<close> fields, basis and proceeds; when it did, the block has the captured text as a
  third.  In the tokenizing converter every block has three \<^verbatim>\<open>$\<close> lines, and the third
  has an empty amount when the record has no wash amount.
\<close>

theorem wash_line_by_converter:
  "length argv = 3 \<Longrightarrow>
   (\<exists>bs starts. fst (snd (convert argv t ls)) = Some (file_text (header t # bs)) \<and>
      sorted_wrt (<) starts \<and>
      list_all2 (\<lambda>i b. i < length ls \<and> ls ! i \<in> set (map snd CUSIPS) \<and>
           (\<exists>m w pr bs.
              ((re_match combined_rx (ls ! (i + 1)) = Some m \<and> w = group m 5 \<and>
                group m 3 = Some pr \<and> group m 4 = Some bs) \<or>
               (re_match combined_rx (ls ! (i + 1)) = None \<and>
                re_match line3_rx (ls ! (i + 2)) = Some m \<and> w = group m 4 \<and>
                group m 2 = Some pr \<and> group m 3 = Some bs)) \<and>
              [v. (op, v) \<leftarrow> b, op = ''$''] =
                (case w of None \<Rightarrow> [S bs, S pr] | Some x \<Rightarrow> [S bs, S pr, S x])))
        starts bs) \<and>
   (\<forall>r. filter (\<lambda>l. startswith l ''$'') (txf_record_lines lib r) =
          [''$'' @ fmt_2f lib (total_reported_basis r),
           ''$'' @ fmt_2f lib (total_reported_proceeds r),
           ''$'' @ compute_total_wash lib r]) \<and>
   (\<forall>r. compute_total_wash lib (r\<lparr>total_reported_wash := None\<rparr>) = [])"
proof -
  assume a: "length argv = 3"
  from convert_file_blocks [OF a, of t ls] obtain bs starts where
    f: "fst (snd (convert argv t ls)) = Some (file_text (header t # bs))" and
    s: "sorted_wrt (<) starts" and b: "list_all2 (block_at ls) starts bs" by blast
  have "list_all2 (\<lambda>i b. i < length ls \<and> ls ! i \<in> set (map snd CUSIPS) \<and>
           (\<exists>m w pr bs.
              ((re_match combined_rx (ls ! (i + 1)) = Some m \<and> w = group m 5 \<and>
                group m 3 = Some pr \<and> group m 4 = Some bs) \<or>
               (re_match combined_rx (ls ! (i + 1)) = None \<and>
                re_match line3_rx (ls ! (i + 2)) = Some m \<and> w = group m 4 \<and>
                group m 2 = Some pr \<and> group m 3 = Some bs)) \<and>
              [v. (op, v) \<leftarrow> b, op = ''$''] =
                (case w of None \<Rightarrow> [S bs, S pr] | Some x \<Rightarrow> [S bs, S pr, S x])))
        starts bs"
    using b
  proof (rule list_all2_mono)
    fix i b
    assume "block_at ls i b"
    then obtain n it j where i: "i < length ls" and c: "ls ! i \<in> set (map snd CUSIPS)"
      and r: "read_item ls i = Inr (it, j)" and b: "b = txf_item n it"
      unfolding block_at_def by blast
    from b have d: "[v. (op, v) \<leftarrow> b, op = ''$''] =
       (case l_wash it of None \<Rightarrow> [S (l_basis it), S (l_proceeds it)]
        | Some x \<Rightarrow> [S (l_basis it), S (l_proceeds it), S x])"
      by (simp only: txf_item_dollars)
    from read_item_amounts [OF r] obtain m where
      "(re_match combined_rx (ls ! (i + 1)) = Some m \<and> l_wash it = group m 5 \<and>
               group m 3 = Some (l_proceeds it) \<and> group m 4 = Some (l_basis it)) \<or>
              (re_match combined_rx (ls ! (i + 1)) = None \<and>
               re_match line3_rx (ls ! (i + 2)) = Some m \<and> l_wash it = group m 4 \<and>
               group m 2 = Some (l_proceeds it) \<and> group m 3 = Some (l_basis it))" by blast
    with i c d
    show "i < length ls \<and> ls ! i \<in> set (map snd CUSIPS) \<and>
           (\<exists>m w pr bs.
              ((re_match combined_rx (ls ! (i + 1)) = Some m \<and> w = group m 5 \<and>
                group m 3 = Some pr \<and> group m 4 = Some bs) \<or>
               (re_match combined_rx (ls ! (i + 1)) = None \<and>
                re_match line3_rx (ls ! (i + 2)) = Some m \<and> w = group m 4 \<and>
                group m 2 = Some pr \<and> group m 3 = Some bs)) \<and>
              [v. (op, v) \<leftarrow> b, op = ''$''] =
                (case w of None \<Rightarrow> [S bs, S pr] | Some x \<Rightarrow> [S bs, S pr, S x]))"
      by metis
  qed
  moreover have "\<forall>r. compute_total_wash lib (r\<lparr>total_reported_wash := None\<rparr>) = []"
    by (simp add: compute_total_wash_def)
  ultimately show ?thesis using f s txf_record_lines_dollars [of lib] by blast
qed

theorem wash_line_by_converter_witness:
  "length conv_argv = 3 \<and>
   (\<exists>bs starts. fst (snd (convert conv_argv ''04/15/2021'' two_boxes)) =
            Some (file_text (header ''04/15/2021'' # bs)) \<and>
      sorted_wrt (<) starts \<and>
      list_all2 (\<lambda>i b. i < length two_boxes \<and> two_boxes ! i \<in> set (map snd CUSIPS) \<and>
           (\<exists>m w pr bs.
              ((re_match combined_rx (two_boxes ! (i + 1)) = Some m \<and> w = group m 5 \<and>
                group m 3 = Some pr \<and> group m 4 = Some bs) \<or>
               (re_match combined_rx (two_boxes ! (i + 1)) = None \<and>
                re_match line3_rx (two_boxes ! (i + 2)) = Some m \<and> w = group m 4 \<and>
                group m 2 = Some pr \<and> group m 3 = Some bs)) \<and>
              [v. (op, v) \<leftarrow> b, op = ''$''] =
                (case w of None \<Rightarrow> [S bs, S pr] | Some x \<Rightarrow> [S bs, S pr, S x])))
        starts bs) \<and>
   re_match combined_rx (two_boxes ! 2) = None \<and>
   (\<exists>m. re_match line3_rx (two_boxes ! 3) = Some m \<and> group m 4 = Some ''1,100.22'') \<and>
   (\<exists>m. re_match combined_rx (two_boxes ! 7) = Some m \<and> group m 5 = None) \<and>
   fst (snd (convert conv_argv ''04/15/2021'' two_boxes)) =
     Some (unlines [''V042'', ''ASelf'', ''D04/15/2021'', ''^'',
                    ''TD'', ''N711'', ''P3 SHARES OF GOOG'', ''D07/25/2019'', ''D08/06/2020'',
                    ''$3,413.43'', ''$4,498.54'', ''$1,100.22'', ''^'',
                    ''TD'', ''N713'', ''P1 SHARE OF GOOGL 08/25/2018 1,212.97 1,273.91 X'',
                    ''D08/25/2018'', ''D08/28/2020'', ''$1,273.91'', ''$1,212.97'', ''^''])"
proof -
  have l: "length conv_argv = 3" by (simp add: conv_argv_def)
  have c2: "re_match combined_rx (two_boxes ! 2) = None" by code_simp
  have "case re_match line3_rx (two_boxes ! 3) of None \<Rightarrow> False
        | Some m \<Rightarrow> group m 4 = Some ''1,100.22''" by code_simp
  then have c3: "\<exists>m. re_match line3_rx (two_boxes ! 3) = Some m \<and> group m 4 = Some ''1,100.22''"
    by (auto split: option.splits)
  have "case re_match combined_rx (two_boxes ! 7) of None \<Rightarrow> False
        | Some m \<Rightarrow> group m 5 = None" by code_simp
  then have c7: "\<exists>m. re_match combined_rx (two_boxes ! 7) = Some m \<and> group m 5 = None"
    by (auto split: option.splits)
  have f: "fst (snd (convert conv_argv ''04/15/2021'' two_boxes)) =
     Some (unlines [''V042'', ''ASelf'', ''D04/15/2021'', ''^'',
                    ''TD'', ''N711'', ''P3 SHARES OF GOOG'', ''D07/25/2019'', ''D08/06/2020'',
                    ''$3,413.43'', ''$4,498.54'', ''$1,100.22'', ''^'',
                    ''TD'', ''N713'', ''P1 SHARE OF GOOGL 08/25/2018 1,212.97 1,273.91 X'',
                    ''D08/25/2018'', ''D08/28/2020'', ''$1,273.91'', ''$1,212.97'', ''^''])"
    by code_simp
  from wash_line_by_converter [OF l, of "''04/15/2021''" two_boxes]
  have "\<exists>bs starts. fst (snd (convert conv_argv ''04/15/2021'' two_boxes)) =
            Some (file_text (header ''04/15/2021'' # bs)) \<and>
      sorted_wrt (<) starts \<and>
      list_all2 (\<lambda>i b. i < length two_boxes \<and> two_boxes ! i \<in> set (map snd CUSIPS) \<and>
           (\<exists>m w pr bs.
              ((re_match combined_rx (two_boxes ! (i + 1)) = Some m \<and> w = group m 5 \<and>
                group m 3 = Some pr \<and> group m 4 = Some bs) \<or>
               (re_match combined_rx (two_boxes ! (i + 1)) = None \<and>
                re_match line3_rx (two_boxes ! (i + 2)) = Some m \<and> w = group m 4 \<and>
                group m 2 = Some pr \<and> group m 3 = Some bs)) \<and>
              [v. (op, v) \<leftarrow> b, op = ''$''] =
                (case w of None \<Rightarrow> [S bs, S pr] | Some x \<Rightarrow> [S bs, S pr, S x])))
        starts bs"
    by (rule conjunct1)
  with l c2 c3 c7 f show ?thesis by (intro conjI)
qed

end
